theory Spec2Isabelle
  imports Main "HOL-Library.Sublist"
begin

section \<open>The TAR Directory action of \<^verbatim>\<open>TarDirectory.py\<close>\<close>

text \<open>
  The script adds a context-menu action that, for each selected directory, submits a
  \<^verbatim>\<open>cmdjob\<close> command line running \<^verbatim>\<open>tar\<close>. The embedding has three layers:
  the Python string and \<^verbatim>\<open>os.path\<close> functions the script calls, the pure helpers
  \<^verbatim>\<open>rreplace\<close> and \<^verbatim>\<open>get_dest_path\<close>, and the effectful \<^verbatim>\<open>menu_enabled\<close> and
  \<^verbatim>\<open>tardir_go\<close>, whose effects (file-system tests, the yes/no dialog, the spawned
  process) go through explicit oracles over an abstract world, with a log of the dialogs
  shown and the processes started. Calls to \<^verbatim>\<open>logger\<close> are not modelled.
\<close>

subsection \<open>Exceptions\<close>

text \<open>
  The Python exceptions that the modelled calls can raise. \<open>Unmodelled\<close> is not a Python
  exception: it marks a call that leaves the fragment of \<^verbatim>\<open>str.format\<close> modelled below.
\<close>

datatype error =
    ValueError
  | KeyError string
  | IndexError
  | OSError
  | Unmodelled

subsection \<open>Python string methods\<close>

text \<open>\<^verbatim>\<open>s.rstrip(chars)\<close>: drop every trailing character that is in \<open>chars\<close>.\<close>

definition rstrip :: "string \<Rightarrow> string \<Rightarrow> string" where
  "rstrip s chars = rev (dropWhile (\<lambda>c. c \<in> set chars) (rev s))"

text \<open>
  \<^verbatim>\<open>s.rfind(sub)\<close>: the highest index at which \<open>sub\<close> starts in \<open>s\<close>, or \<open>-1\<close>.
  \<open>rfind_from s sub i\<close> tries the start positions \<open>i, i - 1, \<dots>, 0\<close> in that order.
\<close>

fun rfind_from :: "string \<Rightarrow> string \<Rightarrow> nat \<Rightarrow> int" where
  "rfind_from s sub 0 = (if prefix sub s then 0 else - 1)"
| "rfind_from s sub (Suc i) =
     (if prefix sub (drop (Suc i) s) then int (Suc i) else rfind_from s sub i)"

definition rfind :: "string \<Rightarrow> string \<Rightarrow> int" where
  "rfind s sub =
     (if length s < length sub then - 1 else rfind_from s sub (length s - length sub))"

text \<open>
  \<^verbatim>\<open>s.rsplit(sep, maxsplit)\<close> for a given separator: an empty separator raises
  \<^verbatim>\<open>ValueError\<close>; otherwise the string is cut at the rightmost occurrence, then at the
  rightmost occurrence left of it, and so on, at most \<open>maxsplit\<close> times (without limit when
  \<open>maxsplit\<close> is negative; a string of length \<open>n\<close> has no more than \<open>n\<close> cuts).
\<close>

fun rsplit_loop :: "string \<Rightarrow> string \<Rightarrow> nat \<Rightarrow> string list \<Rightarrow> string list" where
  "rsplit_loop s sep 0 acc = s # acc"
| "rsplit_loop s sep (Suc n) acc =
     (let pos = rfind s sep in
      if pos < 0 then s # acc
      else rsplit_loop (take (nat pos) s) sep n (drop (nat pos + length sep) s # acc))"

definition rsplit :: "string \<Rightarrow> string \<Rightarrow> int \<Rightarrow> error + string list" where
  "rsplit s sep maxsplit =
     (if sep = [] then Inl ValueError
      else Inr (rsplit_loop s sep (if maxsplit < 0 then length s else nat maxsplit) []))"

text \<open>\<^verbatim>\<open>sep.join(parts)\<close>.\<close>

fun join :: "string \<Rightarrow> string list \<Rightarrow> string" where
  "join sep [] = []"
| "join sep [x] = x"
| "join sep (x # y # ys) = x @ sep @ join sep (y # ys)"

subsection \<open>\<^verbatim>\<open>rreplace\<close> and \<^verbatim>\<open>get_dest_path\<close>\<close>

text \<open>\<^verbatim>\<open>return new.join(s.rsplit(old, count))\<close>\<close>

definition rreplace :: "string \<Rightarrow> string \<Rightarrow> string \<Rightarrow> int \<Rightarrow> error + string" where
  "rreplace s old new count =
     (case rsplit s old count of Inl e \<Rightarrow> Inl e | Inr parts \<Rightarrow> Inr (join new parts))"

definition get_dest_path :: "string \<Rightarrow> error + string" where
  "get_dest_path srcpath =
     (let destpath = srcpath;
          found = rfind destpath ''_xyz/''
      in if found \<ge> 0 then rreplace destpath ''_xyz/'' ''_dcdm/'' 1
         else Inr destpath)"

subsection \<open>\<^verbatim>\<open>os.path.basename\<close> and \<^verbatim>\<open>os.path.dirname\<close>\<close>

text \<open>
  The POSIX versions of the standard library:
  \<^verbatim>\<open>i = p.rfind('/') + 1; return p[i:]\<close> and
  \<^verbatim>\<open>i = p.rfind('/') + 1; head = p[:i]; if head and head != '/'*len(head): head = head.rstrip('/'); return head\<close>.
\<close>

definition basename :: "string \<Rightarrow> string" where
  "basename p = (let i = rfind p ''/'' + 1 in drop (nat i) p)"

definition dirname :: "string \<Rightarrow> string" where
  "dirname p =
     (let i = rfind p ''/'' + 1;
          head = take (nat i) p
      in if head \<noteq> [] \<and> head \<noteq> replicate (length head) CHR ''/'' then rstrip head ''/''
         else head)"

subsection \<open>\<^verbatim>\<open>str.format\<close>\<close>

text \<open>
  The fragment of \<^verbatim>\<open>template.format(*args, **kwargs)\<close> that the script's templates use:
  literal text, the escapes \<^verbatim>\<open>{{\<close> and \<^verbatim>\<open>}}\<close>, the automatically numbered field
  \<^verbatim>\<open>{}\<close> and the keyword field \<^verbatim>\<open>{NAME}\<close>. A value is inserted as it is and is not
  scanned again. An unmatched brace raises \<^verbatim>\<open>ValueError\<close>, a missing positional
  argument \<^verbatim>\<open>IndexError\<close>, a missing keyword \<^verbatim>\<open>KeyError\<close>. Conversions, format
  specifications, attribute and index lookups and explicitly numbered fields are
  outside the fragment and yield \<open>Unmodelled\<close>. The first argument of \<open>format_scan\<close> is
  \<open>None\<close> in literal text and \<open>Some name\<close> inside a field whose name read so far is
  \<open>name\<close>. The arguments are passed already converted by \<^verbatim>\<open>str\<close>.
\<close>

definition emit :: "string \<Rightarrow> error + string \<Rightarrow> error + string" where
  "emit v r = (case r of Inl e \<Rightarrow> Inl e | Inr t \<Rightarrow> Inr (v @ t))"

fun format_scan ::
  "string option \<Rightarrow> string \<Rightarrow> string list \<Rightarrow> (string \<rightharpoonup> string) \<Rightarrow> error + string" where
  "format_scan None [] args kwargs = Inr []"
| "format_scan (Some name) [] args kwargs = Inl ValueError"
| "format_scan None (c # cs) args kwargs =
     (if c = CHR ''{'' then
        (case cs of
           [] \<Rightarrow> Inl ValueError
         | d # ds \<Rightarrow>
             if d = CHR ''{'' then emit ''{'' (format_scan None ds args kwargs)
             else format_scan (Some []) cs args kwargs)
      else if c = CHR ''}'' then
        (case cs of
           [] \<Rightarrow> Inl ValueError
         | d # ds \<Rightarrow>
             if d = CHR ''}'' then emit ''}'' (format_scan None ds args kwargs)
             else Inl ValueError)
      else emit [c] (format_scan None cs args kwargs))"
| "format_scan (Some name) (c # cs) args kwargs =
     (if c = CHR ''}'' then
        (if name = [] then
           (case args of
              [] \<Rightarrow> Inl IndexError
            | a # rest \<Rightarrow> emit a (format_scan None cs rest kwargs))
         else if hd name \<in> set ''0123456789'' then Inl Unmodelled
         else
           (case kwargs name of
              None \<Rightarrow> Inl (KeyError name)
            | Some v \<Rightarrow> emit v (format_scan None cs args kwargs)))
      else if c \<in> set ''{!:.[]'' then Inl Unmodelled
      else format_scan (Some (name @ [c])) cs args kwargs)"

definition format_str :: "string \<Rightarrow> string list \<Rightarrow> (string \<rightharpoonup> string) \<Rightarrow> error + string" where
  "format_str template args kwargs = format_scan None template args kwargs"

text \<open>\<^verbatim>\<open>[x.format(**vars) for x in cmdline]\<close>: the first failure ends the comprehension.\<close>

fun format_each :: "string list \<Rightarrow> (string \<rightharpoonup> string) \<Rightarrow> error + string list" where
  "format_each [] vars = Inr []"
| "format_each (x # xs) vars =
     (case format_str x [] vars of
        Inl e \<Rightarrow> Inl e
      | Inr y \<Rightarrow>
          (case format_each xs vars of
             Inl e \<Rightarrow> Inl e
           | Inr ys \<Rightarrow> Inr (y # ys)))"

text \<open>\<^verbatim>\<open>str(n)\<close> for the non-negative integer \<^verbatim>\<open>len(sel)\<close>.\<close>

definition digit :: "nat \<Rightarrow> char" where
  "digit d = ''0123456789'' ! d"

function str_nat :: "nat \<Rightarrow> string" where
  "str_nat n = (if n < 10 then [digit n] else str_nat (n div 10) @ [digit (n mod 10)])"
  by pat_completeness auto
termination
  by (relation "measure id") auto

declare str_nat.simps [simp del]

subsection \<open>The configuration and the command line\<close>

text \<open>
  The module-level dictionary \<^verbatim>\<open>config\<close>. The functions below take the dictionary as
  an argument, so that what they do with any other content can be stated as well.
\<close>

definition config :: "string \<rightharpoonup> string" where
  "config =
     [''BBMANAGER'' \<mapsto> ''manager'',
      ''BBGROUP'' \<mapsto> ''TARNODES'',
      ''PRIORITY'' \<mapsto> ''30'',
      ''CMDJOB'' \<mapsto> ''/opt/Autodesk/backburner/cmdjob'']"

text \<open>
  The list literal \<^verbatim>\<open>cmdline\<close> before formatting. Its last element is written in the
  source as two adjacent string literals, which Python joins.
\<close>

definition cmdline_template :: "string list" where
  "cmdline_template =
     [''{CMDJOB}'',
      ''-manager:{BBMANAGER}'',
      ''-group:{BBGROUP}'',
      ''-priority:{PRIORITY}'',
      ''-jobName'', ''{JOBNAME}'',
      ''-userRights'',
      ''-description'', ''TAR + List file'',
      ''sh'', ''-c'',
      ''/usr/bin/tar -cf {TARNAME}.tar -C {PARENTDIR} {BASENAME} ; '' @
      '' tar -tvf {TARNAME}.tar | sort > {TARNAME}.tar.list'']"

text \<open>
  Lines 95 to 114 of the source: from the stripped path \<open>p\<close> to the formatted command
  line. \<^verbatim>\<open>vars\<close> is a copy of the configuration with four entries set.
\<close>

definition make_cmdline :: "(string \<rightharpoonup> string) \<Rightarrow> string \<Rightarrow> error + string list" where
  "make_cmdline cfg p =
     (case get_dest_path p of
        Inl e \<Rightarrow> Inl e
      | Inr destpath \<Rightarrow>
          (let vars = cfg(''TARNAME'' \<mapsto> destpath,
                          ''BASENAME'' \<mapsto> basename p,
                          ''JOBNAME'' \<mapsto> basename p @ '' DCDM'',
                          ''PARENTDIR'' \<mapsto> dirname p)
           in format_each cmdline_template vars))"

subsection \<open>The environment\<close>

text \<open>
  A selected item of the host application: the script reads only its \<^verbatim>\<open>path\<close>.
\<close>

record PathItem =
  path :: string

text \<open>
  What the script asks of its environment and does to it, recorded in order with the
  answers: the two file-system tests, a dialog shown with its message and title, and a
  process started with its command line and what \<^verbatim>\<open>subprocess.Popen\<close> followed by
  \<^verbatim>\<open>wait\<close> gave (an exception or a return code).
\<close>

datatype event =
    IsDir string bool
  | IsFile string bool
  | Asked string string bool
  | Spawned "string list" "error + int"

record 'w state =
  world :: 'w
  log :: "event list"

text \<open>
  The operating system as the script sees it: \<^verbatim>\<open>os.path.isdir\<close> and
  \<^verbatim>\<open>os.path.isfile\<close> read the world, running a process reads and changes it.
  A prompt (by default \<^verbatim>\<open>ask_yesno\<close>) reads and changes it as well.
\<close>

record 'w os =
  isdir :: "'w \<Rightarrow> string \<Rightarrow> bool"
  isfile :: "'w \<Rightarrow> string \<Rightarrow> bool"
  popen_wait :: "string list \<Rightarrow> 'w \<Rightarrow> (error + int) \<times> 'w"

type_synonym 'w prompt = "string \<Rightarrow> string \<Rightarrow> 'w \<Rightarrow> bool \<times> 'w"

definition check_isdir :: "'w os \<Rightarrow> string \<Rightarrow> 'w state \<Rightarrow> bool \<times> 'w state" where
  "check_isdir sys p st =
     (let b = isdir sys (world st) p
      in (b, \<lparr>world = world st, log = log st @ [IsDir p b]\<rparr>))"

definition check_isfile :: "'w os \<Rightarrow> string \<Rightarrow> 'w state \<Rightarrow> bool \<times> 'w state" where
  "check_isfile sys p st =
     (let b = isfile sys (world st) p
      in (b, \<lparr>world = world st, log = log st @ [IsFile p b]\<rparr>))"

definition ask :: "'w prompt \<Rightarrow> string \<Rightarrow> string \<Rightarrow> 'w state \<Rightarrow> bool \<times> 'w state" where
  "ask prompt msg title st =
     (let (answer, w) = prompt msg title (world st)
      in (answer, \<lparr>world = w, log = log st @ [Asked msg title answer]\<rparr>))"

definition spawn :: "'w os \<Rightarrow> string list \<Rightarrow> 'w state \<Rightarrow> (error + int) \<times> 'w state" where
  "spawn sys cmdline st =
     (let (r, w) = popen_wait sys cmdline (world st)
      in (r, \<lparr>world = w, log = log st @ [Spawned cmdline r]\<rparr>))"

subsection \<open>\<^verbatim>\<open>menu_enabled\<close>\<close>

text \<open>
  The menu predicate only reads the world (in one state \<open>w\<close>, as nothing it calls
  changes it), so it is a function of the world and keeps no log.
\<close>

fun menu_enabled_loop :: "'w os \<Rightarrow> 'w \<Rightarrow> PathItem list \<Rightarrow> bool \<Rightarrow> bool" where
  "menu_enabled_loop sys w [] is_enabled = is_enabled"
| "menu_enabled_loop sys w (item # rest) is_enabled =
     (if isdir sys w (path item) then menu_enabled_loop sys w rest True
      else menu_enabled_loop sys w rest is_enabled)"

definition menu_enabled :: "'w os \<Rightarrow> 'w \<Rightarrow> PathItem list \<Rightarrow> bool" where
  "menu_enabled sys w sel = menu_enabled_loop sys w sel False"

subsection \<open>\<^verbatim>\<open>tardir_go\<close>\<close>

text \<open>
  The three ways \<^verbatim>\<open>tardir_go\<close> returns: the bare \<^verbatim>\<open>return\<close> after a cancelled
  dialog, the command line in test mode, and the list of return codes.
\<close>

datatype result =
    NoResult
  | Cmdline "string list"
  | Returncodes "int list"

text \<open>
  The \<^verbatim>\<open>for curitem in sel\<close> loop, from the items still to visit and the return codes
  collected so far. \<^verbatim>\<open>and\<close> evaluates its right side only when the left holds, so the
  overwrite dialog is shown only when the archive path is a file.
\<close>

fun tardir_loop ::
  "'w os \<Rightarrow> (string \<rightharpoonup> string) \<Rightarrow> 'w prompt \<Rightarrow> bool \<Rightarrow> PathItem list \<Rightarrow> int list
     \<Rightarrow> 'w state \<Rightarrow> (error + result) \<times> 'w state" where
  "tardir_loop sys cfg prompt test_mode [] returncodes st = (Inr (Returncodes returncodes), st)"
| "tardir_loop sys cfg prompt test_mode (curitem # rest) returncodes st =
     (let (is_dir, st0) = check_isdir sys (path curitem) st
      in if \<not> is_dir then tardir_loop sys cfg prompt test_mode rest returncodes st0
         else
           let p = rstrip (path curitem) ''/'';
               archive_path = p @ ''.tar'';
               (is_file, st1) = check_isfile sys archive_path st0;
               (declined, st2) =
                 (if is_file then
                    (let (answer, st') =
                           ask prompt (''Overwrite '' @ archive_path @ '' ?'')
                             (archive_path @ '' exists'') st1
                     in (\<not> answer, st'))
                  else (False, st1))
           in if declined then tardir_loop sys cfg prompt test_mode rest returncodes st2
              else
                (case make_cmdline cfg p of
                   Inl e \<Rightarrow> (Inl e, st2)
                 | Inr cmdline \<Rightarrow>
                     if test_mode then (Inr (Cmdline cmdline), st2)
                     else
                       (let (r, st3) = spawn sys cmdline st2
                        in case r of
                             Inl e \<Rightarrow> (Inl e, st3)
                           | Inr rc \<Rightarrow>
                               tardir_loop sys cfg prompt test_mode rest
                                 (returncodes @ [rc]) st3)))"

definition tardir_go ::
  "'w os \<Rightarrow> (string \<rightharpoonup> string) \<Rightarrow> PathItem list \<Rightarrow> 'w prompt \<Rightarrow> bool
     \<Rightarrow> 'w state \<Rightarrow> (error + result) \<times> 'w state" where
  "tardir_go sys cfg sel prompt test_mode st =
     (let plural = (if length sel > 1 then ''s'' else [])
      in case format_str ''{} folder{} selected for TAR; OK?''
                [str_nat (length sel), plural] Map.empty of
           Inl e \<Rightarrow> (Inl e, st)
         | Inr msg \<Rightarrow>
             (case format_str ''tarring {} folder{}''
                     [str_nat (length sel), plural] Map.empty of
                Inl e \<Rightarrow> (Inl e, st)
              | Inr title \<Rightarrow>
                  (let (answer, st1) = ask prompt msg title st
                   in if \<not> answer then (Inr NoResult, st1)
                      else tardir_loop sys cfg prompt test_mode sel [] st1)))"

section \<open>Notions used to state the properties\<close>

subsection \<open>Reading a log\<close>

text \<open>The return codes of the processes that ran, and the command lines started, in order.\<close>

fun returncodes_of :: "event list \<Rightarrow> int list" where
  "returncodes_of [] = []"
| "returncodes_of (Spawned c (Inr rc) # evs) = rc # returncodes_of evs"
| "returncodes_of (e # evs) = returncodes_of evs"

fun spawned :: "event list \<Rightarrow> string list list" where
  "spawned [] = []"
| "spawned (Spawned c r # evs) = c # spawned evs"
| "spawned (e # evs) = spawned evs"

subsection \<open>What the source computes for one item\<close>

text \<open>
  The local variables \<^verbatim>\<open>path\<close> and \<^verbatim>\<open>archive_path\<close> of the loop body (lines 89 and
  90), the overwrite dialog of line 92, and the confirmation dialog of lines 81 and 82
  with its two strings written out.
\<close>

definition stripped_path :: "PathItem \<Rightarrow> string" where
  "stripped_path item = rstrip (path item) ''/''"

definition archive_path :: "PathItem \<Rightarrow> string" where
  "archive_path item = stripped_path item @ ''.tar''"

definition overwrite_asked :: "PathItem \<Rightarrow> bool \<Rightarrow> event" where
  "overwrite_asked item answer =
     Asked (''Overwrite '' @ archive_path item @ '' ?'') (archive_path item @ '' exists'') answer"

definition confirm_msg :: "PathItem list \<Rightarrow> string" where
  "confirm_msg sel =
     str_nat (length sel) @ '' folder'' @ (if length sel > 1 then ''s'' else []) @
     '' selected for TAR; OK?''"

definition confirm_title :: "PathItem list \<Rightarrow> string" where
  "confirm_title sel =
     ''tarring '' @ str_nat (length sel) @ '' folder'' @ (if length sel > 1 then ''s'' else [])"

text \<open>
  The shell text of the last command-line element, with the three substituted values:
  the archive name without \<^verbatim>\<open>.tar\<close>, the parent directory and the base name.
\<close>

definition shell_text :: "string \<Rightarrow> string \<Rightarrow> string \<Rightarrow> string" where
  "shell_text tarname parentdir base =
     ''/usr/bin/tar -cf '' @ tarname @ ''.tar -C '' @ parentdir @ '' '' @ base @
     '' ;  tar -tvf '' @ tarname @ ''.tar | sort > '' @ tarname @ ''.tar.list''"

text \<open>
  The rest of the loop body (lines 95 to 123) once the item is neither skipped nor
  declined, as a function of the state reached; the loop is shown below to continue
  with it.
\<close>

definition submit ::
  "'w os \<Rightarrow> (string \<rightharpoonup> string) \<Rightarrow> 'w prompt \<Rightarrow> bool \<Rightarrow> PathItem \<Rightarrow> PathItem list \<Rightarrow> int list
     \<Rightarrow> 'w state \<Rightarrow> (error + result) \<times> 'w state" where
  "submit sys cfg prompt tm item rest rcs st =
     (case make_cmdline cfg (stripped_path item) of
        Inl e \<Rightarrow> (Inl e, st)
      | Inr cmdline \<Rightarrow>
          if tm then (Inr (Cmdline cmdline), st)
          else
            (case popen_wait sys cmdline (world st) of
               (Inl e, w) \<Rightarrow> (Inl e, \<lparr>world = w, log = log st @ [Spawned cmdline (Inl e)]\<rparr>)
             | (Inr rc, w) \<Rightarrow>
                 tardir_loop sys cfg prompt tm rest (rcs @ [rc])
                   \<lparr>world = w, log = log st @ [Spawned cmdline (Inr rc)]\<rparr>))"

subsection \<open>The words of a shell command\<close>

text \<open>
  How \<^verbatim>\<open>sh -c\<close> splits a command text into words at blanks, for a text without
  quoting, expansions or other special characters, in which the operators \<^verbatim>\<open>;\<close>,
  \<^verbatim>\<open>|\<close> and \<^verbatim>\<open>>\<close> stand as words of their own, as they do in the template. A value
  substituted into the template keeps the text of this kind when it is not empty and
  has none of the characters of \<open>shell_special\<close>: the blank, tab and newline, the
  operator and pattern characters, the quotes (codes 0x22, 0x27, 0x60) and the backslash
  (code 0x5C). The script does no quoting of its own.
\<close>

definition shell_special :: string where
  "shell_special =
     '' |&;<>()$*?[]#~=%!{}'' @ [CHR 0x09, CHR 0x0A, CHR 0x22, CHR 0x27, CHR 0x5C, CHR 0x60]"

fun sh_words_from :: "string \<Rightarrow> string \<Rightarrow> string list" where
  "sh_words_from word [] = (if word = [] then [] else [word])"
| "sh_words_from word (c # cs) =
     (if c = CHR '' '' then
        (if word = [] then sh_words_from [] cs else word # sh_words_from [] cs)
      else sh_words_from (word @ [c]) cs)"

definition sh_words :: "string \<Rightarrow> string list" where
  "sh_words text = sh_words_from [] text"

subsection \<open>The events of one item\<close>

text \<open>
  The four ways the loop body can run to its end for one item, as the events it
  leaves: the item is not a directory and is skipped; the archive path is a file and
  the overwrite dialog is declined; no archive is in the way and the job is submitted;
  the overwrite dialog is accepted and the job is submitted. A submitted job has the
  command line that \<open>make_cmdline\<close> gives for the stripped path, and returned a code.
\<close>

definition item_trace :: "(string \<rightharpoonup> string) \<Rightarrow> PathItem \<Rightarrow> event list \<Rightarrow> bool" where
  "item_trace cfg item seg =
     (seg = [IsDir (path item) False] \<or>
      seg = [IsDir (path item) True, IsFile (archive_path item) True,
             overwrite_asked item False] \<or>
      (case make_cmdline cfg (stripped_path item) of
         Inl e \<Rightarrow> False
       | Inr cmdline \<Rightarrow>
           (\<exists>rc \<in> set (returncodes_of seg).
              seg = [IsDir (path item) True, IsFile (archive_path item) False,
                     Spawned cmdline (Inr rc)] \<or>
              seg = [IsDir (path item) True, IsFile (archive_path item) True,
                     overwrite_asked item True, Spawned cmdline (Inr rc)])))"

text \<open>
  An item counts as processed when it was found to be a directory and its overwrite
  dialog, if any, was not declined.
\<close>

definition processed :: "PathItem \<Rightarrow> event list \<Rightarrow> bool" where
  "processed item seg \<longleftrightarrow>
     IsDir (path item) True \<in> set seg \<and> overwrite_asked item False \<notin> set seg"

subsection \<open>The environment of \<^verbatim>\<open>test_tar\<close>\<close>

text \<open>
  The directories that the test of the source creates, its prompt that always says
  yes, and a job submission that returns 6 (connection refused, one of the two codes
  the test accepts). No archive exists, except in \<open>test_os_archived\<close>, where
  \<^verbatim>\<open>/tmp/foo.tar\<close> does. \<open>cancel\<close> is the prompt of a user who always cancels.
  \<open>foo_cmdline\<close> and \<open>sub_cmdline\<close> are the command lines of which the test checks the
  first and the last element, for \<^verbatim>\<open>/tmp/foo\<close> and \<^verbatim>\<open>/tmp/foo_xyz/sub\<close>.
  In \<open>all_dirs_os\<close> every path is a directory, no archive exists and a submission
  returns 0.
\<close>

definition test_dirs :: "string list" where
  "test_dirs = [''/tmp/foo'', ''/tmp/foo/bar'', ''/tmp/foo_xyz'', ''/tmp/foo_xyz/sub'',
     ''/tmp/foo_xyz/sub/sub2'', ''/tmp/foo_dcdm'']"

definition test_os :: "unit os" where
  "test_os =
     \<lparr>isdir = (\<lambda>w p. rstrip p ''/'' \<in> set test_dirs),
      isfile = (\<lambda>w p. False),
      popen_wait = (\<lambda>cmdline w. (Inr 6, w))\<rparr>"

definition test_os_archived :: "unit os" where
  "test_os_archived = test_os\<lparr>isfile := (\<lambda>w p. p = ''/tmp/foo.tar'')\<rparr>"

definition fake_askyesno :: "unit prompt" where
  "fake_askyesno msg title w = (True, w)"

definition cancel :: "unit prompt" where
  "cancel msg title w = (False, w)"

definition all_dirs_os :: "unit os" where
  "all_dirs_os =
     \<lparr>isdir = (\<lambda>w p. True),
      isfile = (\<lambda>w p. False),
      popen_wait = (\<lambda>cmdline w. (Inr 0, w))\<rparr>"

definition foo_cmdline :: "string list" where
  "foo_cmdline =
     [''/opt/Autodesk/backburner/cmdjob'', ''-manager:manager'', ''-group:TARNODES'',
      ''-priority:30'', ''-jobName'', ''foo DCDM'', ''-userRights'', ''-description'',
      ''TAR + List file'', ''sh'', ''-c'',
      ''/usr/bin/tar -cf /tmp/foo.tar -C /tmp foo ;  tar -tvf /tmp/foo.tar | sort > /tmp/foo.tar.list'']"

definition sub_cmdline :: "string list" where
  "sub_cmdline =
     [''/opt/Autodesk/backburner/cmdjob'', ''-manager:manager'', ''-group:TARNODES'',
      ''-priority:30'', ''-jobName'', ''sub DCDM'', ''-userRights'', ''-description'',
      ''TAR + List file'', ''sh'', ''-c'',
      ''/usr/bin/tar -cf /tmp/foo_dcdm/sub.tar -C /tmp/foo_xyz sub ;  tar -tvf /tmp/foo_dcdm/sub.tar | sort > /tmp/foo_dcdm/sub.tar.list'']"

section \<open>Properties\<close>

subsection \<open>\<^verbatim>\<open>rfind\<close> finds the rightmost occurrence\<close>

lemma rfind_from_neg_iff:
  "rfind_from s sub i < 0 \<longleftrightarrow> (\<forall>j\<le>i. \<not> prefix sub (drop j s))"
  by (induction i) (auto simp: le_Suc_eq)

lemma rfind_from_found:
  "0 \<le> rfind_from s sub i \<Longrightarrow>
     nat (rfind_from s sub i) \<le> i \<and> prefix sub (drop (nat (rfind_from s sub i)) s) \<and>
     (\<forall>j. nat (rfind_from s sub i) < j \<and> j \<le> i \<longrightarrow> \<not> prefix sub (drop j s))"
proof (induction i)
  case 0
  then show ?case by (simp split: if_splits)
next
  case (Suc i)
  show ?case
  proof (cases "prefix sub (drop (Suc i) s)")
    case True
    have "nat (1 + int i) = Suc i" by arith
    with True show ?thesis by auto
  next
    case False
    with Suc show ?thesis by (auto simp: le_Suc_eq)
  qed
qed

lemma prefix_drop_bound:
  assumes "sub \<noteq> []" "prefix sub (drop j s)"
  shows "j + length sub \<le> length s"
proof -
  from assms(2) have "length sub \<le> length s - j"
    using prefix_length_le by fastforce
  moreover from assms have "j < length s"
    by (cases "j < length s") auto
  ultimately show ?thesis by simp
qed

lemma sublist_iff_prefix_drop: "sublist sub s \<longleftrightarrow> (\<exists>j. prefix sub (drop j s))"
proof
  assume "sublist sub s"
  then obtain ps ss where "s = ps @ sub @ ss" by (auto simp: sublist_def)
  then have "prefix sub (drop (length ps) s)" by simp
  then show "\<exists>j. prefix sub (drop j s)" ..
next
  assume "\<exists>j. prefix sub (drop j s)"
  then obtain j ss where "drop j s = sub @ ss" by (auto simp: prefix_def)
  then have "s = take j s @ sub @ ss" by (metis append_take_drop_id)
  then show "sublist sub s" unfolding sublist_def by blast
qed

lemma rfind_neg_iff:
  assumes "sub \<noteq> []"
  shows "rfind s sub < 0 \<longleftrightarrow> \<not> sublist sub s"
proof (cases "length s < length sub")
  case True
  then have "\<not> sublist sub s" using sublist_length_le by fastforce
  with True show ?thesis by (simp add: rfind_def)
next
  case False
  have "(\<forall>j\<le>length s - length sub. \<not> prefix sub (drop j s)) \<longleftrightarrow> (\<forall>j. \<not> prefix sub (drop j s))"
    using prefix_drop_bound [OF assms] by fastforce
  with False show ?thesis
    by (simp add: rfind_def rfind_from_neg_iff sublist_iff_prefix_drop)
qed

lemma rfind_found:
  assumes "sub \<noteq> []" "0 \<le> rfind s sub"
  shows "nat (rfind s sub) + length sub \<le> length s \<and>
         prefix sub (drop (nat (rfind s sub)) s) \<and>
         (\<forall>j > nat (rfind s sub). \<not> prefix sub (drop j s))"
proof -
  from assms(2) have le: "\<not> length s < length sub" and
    fr: "rfind s sub = rfind_from s sub (length s - length sub)"
    by (auto simp: rfind_def split: if_splits)
  from assms(2) fr have "0 \<le> rfind_from s sub (length s - length sub)" by simp
  from rfind_from_found [OF this] fr
  have a: "nat (rfind s sub) \<le> length s - length sub"
    and b: "prefix sub (drop (nat (rfind s sub)) s)"
    and c: "\<forall>j. nat (rfind s sub) < j \<and> j \<le> length s - length sub \<longrightarrow> \<not> prefix sub (drop j s)"
    by simp_all
  have "\<not> prefix sub (drop j s)" if "j > nat (rfind s sub)" for j
  proof (cases "j \<le> length s - length sub")
    case True
    with c that show ?thesis by blast
  next
    case False
    then show ?thesis using prefix_drop_bound [OF assms(1)] by fastforce
  qed
  with a b le show ?thesis by auto
qed

lemma rfind_unique:
  assumes "sub \<noteq> []" "s = pre @ sub @ post" "\<not> sublist sub (tl (sub @ post))"
  shows "rfind s sub = int (length pre)"
proof -
  have occ: "prefix sub (drop (length pre) s)" using assms(2) by simp
  then have "sublist sub s" using sublist_iff_prefix_drop by blast
  then have nn: "0 \<le> rfind s sub" using rfind_neg_iff [OF assms(1), of s] by linarith
  note f = rfind_found [OF assms(1) nn]
  have "\<not> length pre > nat (rfind s sub)" using f occ by blast
  moreover have "\<not> nat (rfind s sub) > length pre"
  proof
    assume gt: "nat (rfind s sub) > length pre"
    define k where "k = nat (rfind s sub)"
    have "drop k s = drop (k - Suc (length pre)) (drop (Suc (length pre)) s)"
      using gt by (simp add: k_def)
    moreover have "drop (Suc (length pre)) s = tl (sub @ post)"
      using assms(1,2) by (cases sub) simp_all
    ultimately have "prefix sub (drop (k - Suc (length pre)) (tl (sub @ post)))"
      using f by (simp add: k_def)
    then have "sublist sub (tl (sub @ post))" using sublist_iff_prefix_drop by blast
    with assms(3) show False by contradiction
  qed
  ultimately show ?thesis using nn by linarith
qed

lemma rightmost_exists:
  assumes "sub \<noteq> []" "sublist sub (s :: string)"
  shows "\<exists>pre post. s = pre @ sub @ post \<and> \<not> sublist sub (tl (sub @ post))"
proof -
  from assms have nn: "0 \<le> rfind s sub" using rfind_neg_iff [of sub s] by linarith
  define k where "k = nat (rfind s sub)"
  note f = rfind_found [OF assms(1) nn, folded k_def]
  from f obtain post where post: "drop k s = sub @ post" by (auto simp: prefix_def)
  then have s: "s = take k s @ sub @ post" by (metis append_take_drop_id)
  have "drop (Suc k) s = tl (sub @ post)" using post by (simp add: drop_Suc drop_tl)
  moreover have "\<not> sublist sub (drop (Suc k) s)"
  proof
    assume "sublist sub (drop (Suc k) s)"
    then obtain j where "prefix sub (drop j (drop (Suc k) s))"
      using sublist_iff_prefix_drop by blast
    then have "prefix sub (drop (j + Suc k) s)" by simp
    with f show False by simp
  qed
  ultimately show ?thesis using s by metis
qed

subsection \<open>The destination path\<close>

lemma rreplace_once:
  assumes "old \<noteq> []" "0 \<le> rfind s old"
  shows "rreplace s old new 1 =
           Inr (take (nat (rfind s old)) s @ new @ drop (nat (rfind s old) + length old) s)"
  using assms by (simp add: rreplace_def rsplit_def Let_def)

lemma get_dest_path_eq:
  "get_dest_path s =
     Inr (if rfind s ''_xyz/'' < 0 then s
          else take (nat (rfind s ''_xyz/'')) s @ ''_dcdm/'' @ drop (nat (rfind s ''_xyz/'') + length ''_xyz/'') s)"
  by (simp add: get_dest_path_def rreplace_once Let_def)

lemma get_dest_path_total: "\<exists>d. get_dest_path p = Inr d"
  by (simp add: get_dest_path_def rreplace_def rsplit_def Let_def)

lemma get_dest_path_differs:
  assumes "sublist ''_xyz/'' p" "get_dest_path p = Inr d"
  shows "length d = Suc (length p)"
proof -
  have ne: "''_xyz/'' \<noteq> []" by simp
  from assms(1) have nn: "0 \<le> rfind p ''_xyz/''"
    using rfind_neg_iff [OF ne, of p] by linarith
  from rfind_found [OF ne nn] have "nat (rfind p ''_xyz/'') + 5 \<le> length p" by simp
  with assms(2) nn show ?thesis by (auto simp: get_dest_path_eq)
qed

lemma xyz_no_overlap:
  "sublist ''_xyz/'' (tl (''_xyz/'' @ post)) \<longleftrightarrow> sublist ''_xyz/'' post"
  by (simp add: sublist_Cons_right)

text \<open>
  Claim C1, as amended. \<^verbatim>\<open>get_dest_path\<close> never raises. A path in which \<^verbatim>\<open>_xyz/\<close>
  (with the slash) does not occur is returned unchanged. A path in which it occurs is
  returned with its rightmost occurrence, and only that one, replaced by \<^verbatim>\<open>_dcdm/\<close>:
  the path splits as \<open>pre @ ''_xyz/'' @ post\<close> with no occurrence in \<open>post\<close>, and every
  such split gives the result \<open>pre @ ''_dcdm/'' @ post\<close>.
\<close>

theorem get_dest_path_rightmost:
  "(\<not> sublist ''_xyz/'' s \<longrightarrow> get_dest_path s = Inr s) \<and>
   (sublist ''_xyz/'' s \<longrightarrow>
      (\<exists>pre post. s = pre @ ''_xyz/'' @ post \<and> \<not> sublist ''_xyz/'' post \<and>
         get_dest_path s = Inr (pre @ ''_dcdm/'' @ post))) \<and>
   (\<forall>pre post. s = pre @ ''_xyz/'' @ post \<and> \<not> sublist ''_xyz/'' post \<longrightarrow>
      get_dest_path s = Inr (pre @ ''_dcdm/'' @ post))"
proof -
  have ne: "''_xyz/'' \<noteq> []" by simp
  have none: "get_dest_path s = Inr s" if "\<not> sublist ''_xyz/'' s"
    using that rfind_neg_iff [OF ne, of s] by (simp add: get_dest_path_eq)
  have cut: "get_dest_path s = Inr (pre @ ''_dcdm/'' @ post)"
    if "s = pre @ ''_xyz/'' @ post" "\<not> sublist ''_xyz/'' post" for pre post
  proof -
    from that(2) have "\<not> sublist ''_xyz/'' (tl (''_xyz/'' @ post))"
      using xyz_no_overlap [of post] by blast
    from rfind_unique [OF ne that(1) this]
    have "rfind s ''_xyz/'' = int (length pre)" .
    then show ?thesis using that(1) by (simp add: get_dest_path_eq)
  qed
  have some: "\<exists>pre post. s = pre @ ''_xyz/'' @ post \<and> \<not> sublist ''_xyz/'' post \<and>
         get_dest_path s = Inr (pre @ ''_dcdm/'' @ post)" if "sublist ''_xyz/'' s"
  proof -
    from rightmost_exists [OF ne that] obtain pre post
      where "s = pre @ ''_xyz/'' @ post" "\<not> sublist ''_xyz/'' (tl (''_xyz/'' @ post))"
      by blast
    then have "s = pre @ ''_xyz/'' @ post \<and> \<not> sublist ''_xyz/'' post"
      using xyz_no_overlap [of post] by blast
    with cut show ?thesis by blast
  qed
  from none cut some show ?thesis by blast
qed

text \<open>
  The theorem at a path without \<^verbatim>\<open>_xyz/\<close> and at a path with two occurrences.
\<close>

theorem get_dest_path_rightmost_witness:
  "\<not> sublist ''_xyz/'' ''/tmp/foo'' \<and> get_dest_path ''/tmp/foo'' = Inr ''/tmp/foo'' \<and>
   sublist ''_xyz/'' ''/a_xyz/b_xyz/c'' \<and> \<not> sublist ''_xyz/'' ''c'' \<and>
   get_dest_path ''/a_xyz/b_xyz/c'' = Inr ''/a_xyz/b_dcdm/c''"
proof -
  have a: "\<not> sublist ''_xyz/'' ''/tmp/foo''" by (simp add: sublist_Cons_right)
  have b: "sublist ''_xyz/'' ''/a_xyz/b_xyz/c''" by (simp add: sublist_Cons_right)
  have c: "\<not> sublist ''_xyz/'' ''c''" by (simp add: sublist_Cons_right)
  have d: "''/a_xyz/b_xyz/c'' = ''/a_xyz/b'' @ ''_xyz/'' @ ''c''" by simp
  from get_dest_path_rightmost [of "''/tmp/foo''"] a
  have e: "get_dest_path ''/tmp/foo'' = Inr ''/tmp/foo''" by blast
  from get_dest_path_rightmost [of "''/a_xyz/b_xyz/c''"] c d
  have "get_dest_path ''/a_xyz/b_xyz/c'' = Inr (''/a_xyz/b'' @ ''_dcdm/'' @ ''c'')" by blast
  then have f: "get_dest_path ''/a_xyz/b_xyz/c'' = Inr ''/a_xyz/b_dcdm/c''" by simp
  from a b c e f show ?thesis by blast
qed

text \<open>
  Claim C1 as it was stated fails: a path that ends in a component \<^verbatim>\<open>foo_xyz\<close> contains
  \<^verbatim>\<open>_xyz\<close> and is returned unchanged, and of two \<^verbatim>\<open>_xyz/\<close> only the right one is
  rewritten.
\<close>

theorem get_dest_path_xyz_counterexample:
  "sublist ''_xyz'' ''/tmp/foo_xyz'' \<and> get_dest_path ''/tmp/foo_xyz'' = Inr ''/tmp/foo_xyz'' \<and>
   get_dest_path ''/a_xyz/b_xyz/c'' = Inr ''/a_xyz/b_dcdm/c''"
  by (simp add: sublist_Cons_right get_dest_path_def rfind_def rreplace_def rsplit_def)

subsection \<open>Formatting the dialogs and the command line\<close>

lemma format_confirm_msg:
  "format_str ''{} folder{} selected for TAR; OK?'' [n, plural] Map.empty =
     Inr (n @ '' folder'' @ plural @ '' selected for TAR; OK?'')"
  by (simp add: format_str_def emit_def)

lemma format_confirm_title:
  "format_str ''tarring {} folder{}'' [n, plural] Map.empty =
     Inr (''tarring '' @ n @ '' folder'' @ plural)"
  by (simp add: format_str_def emit_def)

lemma format_each_length:
  "format_each xs vars = Inr ys \<Longrightarrow> length ys = length xs"
  by (induction xs arbitrary: ys) (auto split: sum.splits)

lemma format_each_append:
  "format_each (xs @ zs) vars =
     (case format_each xs vars of
        Inl e \<Rightarrow> Inl e
      | Inr a \<Rightarrow> (case format_each zs vars of Inl e \<Rightarrow> Inl e | Inr b \<Rightarrow> Inr (a @ b)))"
  by (induction xs) (simp_all split: sum.splits)

lemma format_shell_part:
  "format_each (drop 9 cmdline_template)
     (cfg(''TARNAME'' \<mapsto> d, ''BASENAME'' \<mapsto> b, ''JOBNAME'' \<mapsto> j, ''PARENTDIR'' \<mapsto> pd)) =
   Inr [''sh'', ''-c'', shell_text d pd b]"
  by (simp add: cmdline_template_def format_str_def emit_def shell_text_def)

lemma format_config_part:
  assumes "cfg ''CMDJOB'' = Some cj" "cfg ''BBMANAGER'' = Some m" "cfg ''BBGROUP'' = Some g"
    "cfg ''PRIORITY'' = Some pr"
  shows "format_each (take 9 cmdline_template)
     (cfg(''TARNAME'' \<mapsto> d, ''BASENAME'' \<mapsto> b, ''JOBNAME'' \<mapsto> j, ''PARENTDIR'' \<mapsto> pd)) =
   Inr [cj, ''-manager:'' @ m, ''-group:'' @ g, ''-priority:'' @ pr, ''-jobName'', j,
        ''-userRights'', ''-description'', ''TAR + List file'']"
  using assms by (simp add: cmdline_template_def format_str_def emit_def)

lemma make_cmdline_shell:
  assumes "make_cmdline cfg p = Inr c"
  shows "\<exists>d. get_dest_path p = Inr d \<and> length c = 12 \<and>
           drop 9 c = [''sh'', ''-c'', shell_text d (dirname p) (basename p)]"
proof -
  from assms obtain d where d: "get_dest_path p = Inr d"
    by (auto simp: make_cmdline_def split: sum.splits)
  define vars where "vars = cfg(''TARNAME'' \<mapsto> d, ''BASENAME'' \<mapsto> basename p,
     ''JOBNAME'' \<mapsto> basename p @ '' DCDM'', ''PARENTDIR'' \<mapsto> dirname p)"
  from assms d have "format_each cmdline_template vars = Inr c"
    by (simp add: make_cmdline_def vars_def)
  then have "format_each (take 9 cmdline_template @ drop 9 cmdline_template) vars = Inr c"
    by simp
  then obtain a where a: "format_each (take 9 cmdline_template) vars = Inr a"
    and c: "c = a @ [''sh'', ''-c'', shell_text d (dirname p) (basename p)]"
    unfolding format_each_append vars_def format_shell_part by (auto split: sum.splits)
  from format_each_length [OF a] have "length a = 9" by (simp add: cmdline_template_def)
  with c d show ?thesis by simp
qed

lemma make_cmdline_config:
  assumes "cfg ''CMDJOB'' = Some cj" "cfg ''BBMANAGER'' = Some m" "cfg ''BBGROUP'' = Some g"
    "cfg ''PRIORITY'' = Some pr" "get_dest_path p = Inr d"
  shows "make_cmdline cfg p =
     Inr [cj, ''-manager:'' @ m, ''-group:'' @ g, ''-priority:'' @ pr,
          ''-jobName'', basename p @ '' DCDM'',
          ''-userRights'', ''-description'', ''TAR + List file'',
          ''sh'', ''-c'', shell_text d (dirname p) (basename p)]"
proof -
  define vars where "vars = cfg(''TARNAME'' \<mapsto> d, ''BASENAME'' \<mapsto> basename p,
     ''JOBNAME'' \<mapsto> basename p @ '' DCDM'', ''PARENTDIR'' \<mapsto> dirname p)"
  have "format_each (take 9 cmdline_template @ drop 9 cmdline_template) vars =
     Inr ([cj, ''-manager:'' @ m, ''-group:'' @ g, ''-priority:'' @ pr,
          ''-jobName'', basename p @ '' DCDM'',
          ''-userRights'', ''-description'', ''TAR + List file''] @
          [''sh'', ''-c'', shell_text d (dirname p) (basename p)])"
    unfolding format_each_append vars_def format_shell_part
      format_config_part [OF assms(1-4)] by simp
  then show ?thesis using assms(5) by (simp add: make_cmdline_def vars_def)
qed

subsection \<open>One pass of the loop\<close>

text \<open>
  The loop body, case by case: what the loop continues with after an item that is
  not a directory, after a declined overwrite, and after the two ways to reach the
  submission.
\<close>

lemmas item_defs = stripped_path_def archive_path_def overwrite_asked_def

lemma loop_not_dir:
  assumes "\<not> isdir sys (world st) (path item)"
  shows "tardir_loop sys cfg prompt tm (item # rest) rcs st =
         tardir_loop sys cfg prompt tm rest rcs
           \<lparr>world = world st, log = log st @ [IsDir (path item) False]\<rparr>"
  using assms by (simp add: check_isdir_def)

lemma loop_declined:
  assumes "isdir sys (world st) (path item)" "isfile sys (world st) (archive_path item)"
    "prompt (''Overwrite '' @ archive_path item @ '' ?'') (archive_path item @ '' exists'')
       (world st) = (False, w)"
  shows "tardir_loop sys cfg prompt tm (item # rest) rcs st =
         tardir_loop sys cfg prompt tm rest rcs
           \<lparr>world = w, log = log st @ [IsDir (path item) True, IsFile (archive_path item) True,
                                      overwrite_asked item False]\<rparr>"
  using assms by (simp add: Let_def check_isdir_def check_isfile_def ask_def item_defs)

lemma loop_no_archive:
  assumes "isdir sys (world st) (path item)" "\<not> isfile sys (world st) (archive_path item)"
  shows "tardir_loop sys cfg prompt tm (item # rest) rcs st =
         submit sys cfg prompt tm item rest rcs
           \<lparr>world = world st,
            log = log st @ [IsDir (path item) True, IsFile (archive_path item) False]\<rparr>"
  using assms
  by (simp add: Let_def check_isdir_def check_isfile_def spawn_def submit_def item_defs
      split: sum.splits prod.splits)

lemma loop_overwrite:
  assumes "isdir sys (world st) (path item)" "isfile sys (world st) (archive_path item)"
    "prompt (''Overwrite '' @ archive_path item @ '' ?'') (archive_path item @ '' exists'')
       (world st) = (True, w)"
  shows "tardir_loop sys cfg prompt tm (item # rest) rcs st =
         submit sys cfg prompt tm item rest rcs
           \<lparr>world = w, log = log st @ [IsDir (path item) True, IsFile (archive_path item) True,
                                      overwrite_asked item True]\<rparr>"
  using assms
  by (simp add: Let_def check_isdir_def check_isfile_def ask_def spawn_def submit_def item_defs
      split: sum.splits prod.splits)

declare tardir_loop.simps(2) [simp del]

lemma submit_run:
  assumes "submit sys cfg prompt False item rest rcs st = (Inr res, st')"
  shows "\<exists>cmdline rc w. make_cmdline cfg (stripped_path item) = Inr cmdline \<and>
           tardir_loop sys cfg prompt False rest (rcs @ [rc])
             \<lparr>world = w, log = log st @ [Spawned cmdline (Inr rc)]\<rparr> = (Inr res, st')"
  using assms by (auto simp: submit_def split: sum.splits prod.splits)

lemma submit_test:
  assumes "submit sys cfg prompt True item rest rcs s = (Inr (Cmdline c), st')"
  shows "make_cmdline cfg (stripped_path item) = Inr c"
  using assms by (simp add: submit_def split: sum.splits)

lemma tardir_loop_step:
  assumes "tardir_loop sys cfg prompt False (item # rest) rcs st = (Inr res, st')"
  shows "\<exists>seg w1. item_trace cfg item seg \<and>
           tardir_loop sys cfg prompt False rest (rcs @ returncodes_of seg)
             \<lparr>world = w1, log = log st @ seg\<rparr> = (Inr res, st')"
proof (cases "isdir sys (world st) (path item)")
  case False
  let ?seg = "[IsDir (path item) False]"
  have "item_trace cfg item ?seg" by (simp add: item_trace_def)
  moreover from assms loop_not_dir [OF False]
  have "tardir_loop sys cfg prompt False rest (rcs @ returncodes_of ?seg)
          \<lparr>world = world st, log = log st @ ?seg\<rparr> = (Inr res, st')" by simp
  ultimately show ?thesis by blast
next
  case dir: True
  show ?thesis
  proof (cases "isfile sys (world st) (archive_path item)")
    case False
    let ?pre = "[IsDir (path item) True, IsFile (archive_path item) False]"
    from assms loop_no_archive [OF dir False]
    have "submit sys cfg prompt False item rest rcs
            \<lparr>world = world st, log = log st @ ?pre\<rparr> = (Inr res, st')" by simp
    from submit_run [OF this] obtain cmdline rc w
      where c: "make_cmdline cfg (stripped_path item) = Inr cmdline"
        and r: "tardir_loop sys cfg prompt False rest (rcs @ [rc])
                  \<lparr>world = w, log = log st @ ?pre @ [Spawned cmdline (Inr rc)]\<rparr> = (Inr res, st')"
      by auto
    let ?seg = "?pre @ [Spawned cmdline (Inr rc)]"
    have "item_trace cfg item ?seg" using c by (simp add: item_trace_def)
    moreover have "returncodes_of ?seg = [rc]" by simp
    ultimately show ?thesis using r by metis
  next
    case isf: True
    obtain answer w0 where pr: "prompt (''Overwrite '' @ archive_path item @ '' ?'')
       (archive_path item @ '' exists'') (world st) = (answer, w0)" by fastforce
    show ?thesis
    proof (cases answer)
      case False
      let ?seg = "[IsDir (path item) True, IsFile (archive_path item) True,
                   overwrite_asked item False]"
      have "item_trace cfg item ?seg" by (simp add: item_trace_def)
      moreover have "returncodes_of ?seg = []" by (simp add: overwrite_asked_def)
      moreover from pr False
      have pr': "prompt (''Overwrite '' @ archive_path item @ '' ?'')
        (archive_path item @ '' exists'') (world st) = (False, w0)" by simp
      from assms loop_declined [where prompt = prompt, OF dir isf pr']
      have "tardir_loop sys cfg prompt False rest rcs
              \<lparr>world = w0, log = log st @ ?seg\<rparr> = (Inr res, st')" by simp
      ultimately show ?thesis by (metis append_Nil2)
    next
      case True
      let ?pre = "[IsDir (path item) True, IsFile (archive_path item) True,
                   overwrite_asked item True]"
      from pr True
      have pr': "prompt (''Overwrite '' @ archive_path item @ '' ?'')
        (archive_path item @ '' exists'') (world st) = (True, w0)" by simp
      from assms loop_overwrite [where prompt = prompt, OF dir isf pr']
      have "submit sys cfg prompt False item rest rcs
              \<lparr>world = w0, log = log st @ ?pre\<rparr> = (Inr res, st')" by simp
      from submit_run [OF this] obtain cmdline rc w
        where c: "make_cmdline cfg (stripped_path item) = Inr cmdline"
          and r: "tardir_loop sys cfg prompt False rest (rcs @ [rc])
                    \<lparr>world = w, log = log st @ ?pre @ [Spawned cmdline (Inr rc)]\<rparr> = (Inr res, st')"
        by auto
      let ?seg = "?pre @ [Spawned cmdline (Inr rc)]"
      have "item_trace cfg item ?seg"
        using c by (simp add: item_trace_def overwrite_asked_def)
      moreover have "returncodes_of ?seg = [rc]" by (simp add: overwrite_asked_def)
      ultimately show ?thesis using r by metis
    qed
  qed
qed

lemma returncodes_of_append:
  "returncodes_of (xs @ ys) = returncodes_of xs @ returncodes_of ys"
  by (induction xs rule: returncodes_of.induct) simp_all

lemma spawned_append: "spawned (xs @ ys) = spawned xs @ spawned ys"
  by (induction xs rule: spawned.induct) simp_all

lemma tardir_loop_trace:
  assumes "tardir_loop sys cfg prompt False sel rcs st = (Inr res, st')"
  shows "\<exists>segs. list_all2 (item_trace cfg) sel segs \<and> log st' = log st @ concat segs \<and>
           res = Returncodes (rcs @ returncodes_of (concat segs))"
  using assms
proof (induction sel arbitrary: rcs st)
  case Nil
  then show ?case by auto
next
  case (Cons item rest)
  from tardir_loop_step [OF Cons.prems] obtain seg w1
    where seg: "item_trace cfg item seg"
      and run: "tardir_loop sys cfg prompt False rest (rcs @ returncodes_of seg)
                  \<lparr>world = w1, log = log st @ seg\<rparr> = (Inr res, st')" by blast
  from Cons.IH [OF run] obtain segs
    where segs: "list_all2 (item_trace cfg) rest segs"
      and l: "log st' = (log st @ seg) @ concat segs"
      and r: "res = Returncodes ((rcs @ returncodes_of seg) @ returncodes_of (concat segs))"
    by auto
  have "returncodes_of (seg @ evs) = returncodes_of seg @ returncodes_of evs" for evs
    by (induction seg rule: returncodes_of.induct) simp_all
  with seg segs l r
  have "list_all2 (item_trace cfg) (item # rest) (seg # segs) \<and>
        log st' = log st @ concat (seg # segs) \<and>
        res = Returncodes (rcs @ returncodes_of (concat (seg # segs)))" by simp
  then show ?case by blast
qed

lemma tardir_loop_test_step:
  assumes "tardir_loop sys cfg prompt True (item # rest) rcs st = (Inr (Cmdline c), st')"
  shows "make_cmdline cfg (stripped_path item) = Inr c \<or>
         (\<exists>st1. tardir_loop sys cfg prompt True rest rcs st1 = (Inr (Cmdline c), st'))"
proof (cases "isdir sys (world st) (path item)")
  case False
  from assms loop_not_dir [OF False] show ?thesis by auto
next
  case dir: True
  show ?thesis
  proof (cases "isfile sys (world st) (archive_path item)")
    case False
    from assms loop_no_archive [OF dir False]
    have "submit sys cfg prompt True item rest rcs
            \<lparr>world = world st,
             log = log st @ [IsDir (path item) True, IsFile (archive_path item) False]\<rparr> =
          (Inr (Cmdline c), st')" by simp
    from submit_test [OF this] show ?thesis by simp
  next
    case isf: True
    obtain answer w0 where pr: "prompt (''Overwrite '' @ archive_path item @ '' ?'')
       (archive_path item @ '' exists'') (world st) = (answer, w0)" by fastforce
    show ?thesis
    proof (cases answer)
      case False
      with pr have "prompt (''Overwrite '' @ archive_path item @ '' ?'')
        (archive_path item @ '' exists'') (world st) = (False, w0)" by simp
      from assms loop_declined [where prompt = prompt, OF dir isf this]
      show ?thesis by auto
    next
      case True
      with pr have "prompt (''Overwrite '' @ archive_path item @ '' ?'')
        (archive_path item @ '' exists'') (world st) = (True, w0)" by simp
      from assms loop_overwrite [where prompt = prompt, OF dir isf this]
      have "submit sys cfg prompt True item rest rcs
              \<lparr>world = w0, log = log st @ [IsDir (path item) True,
                 IsFile (archive_path item) True, overwrite_asked item True]\<rparr> =
            (Inr (Cmdline c), st')" by simp
      from submit_test [OF this] show ?thesis by simp
    qed
  qed
qed

lemma tardir_loop_test_cmdline:
  assumes "tardir_loop sys cfg prompt True sel rcs st = (Inr (Cmdline c), st')"
  shows "\<exists>item \<in> set sel. make_cmdline cfg (stripped_path item) = Inr c"
  using assms
proof (induction sel arbitrary: st)
  case Nil
  then show ?case by simp
next
  case (Cons item rest)
  from tardir_loop_test_step [OF Cons.prems]
  show ?case
  proof
    assume "make_cmdline cfg (stripped_path item) = Inr c"
    then show ?thesis by simp
  next
    assume "\<exists>st1. tardir_loop sys cfg prompt True rest rcs st1 = (Inr (Cmdline c), st')"
    then obtain st1 where "tardir_loop sys cfg prompt True rest rcs st1 = (Inr (Cmdline c), st')"
      by blast
    from Cons.IH [OF this] show ?thesis by auto
  qed
qed

lemma dropWhile_replicate_same:
  "P x \<Longrightarrow> dropWhile P (replicate n x @ ys) = dropWhile P ys"
  by (induction n) simp_all

lemma rstrip_slashes: "rstrip (p @ replicate n CHR ''/'') ''/'' = rstrip p ''/''"
  by (simp add: rstrip_def dropWhile_replicate_same)

lemma submit_cong:
  assumes sp: "stripped_path a = stripped_path b" and w: "world s = world t"
    and rest: "\<And>rcs' s' t'. world s' = world t' \<Longrightarrow>
      fst (tardir_loop sys cfg prompt tm ra rcs' s') = fst (tardir_loop sys cfg prompt tm rb rcs' t')"
  shows "fst (submit sys cfg prompt tm a ra rcs s) = fst (submit sys cfg prompt tm b rb rcs t)"
proof (cases "make_cmdline cfg (stripped_path b)")
  case (Inl e)
  with sp show ?thesis by (simp add: submit_def)
next
  case (Inr cmdline)
  show ?thesis
  proof (cases tm)
    case True
    with Inr sp show ?thesis by (simp add: submit_def)
  next
    case False
    obtain r w' where p: "popen_wait sys cmdline (world t) = (r, w')" by fastforce
    show ?thesis
    proof (cases r)
      case (Inl e)
      with p Inr sp w False show ?thesis by (simp add: submit_def)
    next
      case rc: (Inr rc)
      have "fst (tardir_loop sys cfg prompt tm ra (rcs @ [rc])
                  \<lparr>world = w', log = log s @ [Spawned cmdline (Inr rc)]\<rparr>) =
            fst (tardir_loop sys cfg prompt tm rb (rcs @ [rc])
                  \<lparr>world = w', log = log t @ [Spawned cmdline (Inr rc)]\<rparr>)"
        by (rule rest) simp
      with p Inr sp w False rc show ?thesis by (simp add: submit_def)
    qed
  qed
qed

lemma tardir_loop_cong:
  assumes "list_all2 (\<lambda>a b. stripped_path a = stripped_path b \<and>
             (\<forall>w. isdir sys w (path a) = isdir sys w (path b))) sel sel'"
    and "world st = world st'"
  shows "fst (tardir_loop sys cfg prompt tm sel rcs st) =
         fst (tardir_loop sys cfg prompt tm sel' rcs st')"
  using assms
proof (induction arbitrary: rcs st st' rule: list_all2_induct)
  case Nil
  then show ?case by simp
next
  case (Cons a sel b sel')
  from Cons.hyps(1) have sp: "stripped_path a = stripped_path b"
    and dir: "isdir sys (world st) (path a) = isdir sys (world st') (path b)"
    using Cons.prems by simp_all
  from sp have ap: "archive_path a = archive_path b" by (simp add: archive_path_def)
  note w = Cons.prems
  have rest: "fst (tardir_loop sys cfg prompt tm sel rcs' s') =
              fst (tardir_loop sys cfg prompt tm sel' rcs' t')" if "world s' = world t'"
    for rcs' s' t' using that by (rule Cons.IH)
  show ?case
  proof (cases "isdir sys (world st') (path b)")
    case False
    with dir have "\<not> isdir sys (world st) (path a)" by simp
    from loop_not_dir [OF this] loop_not_dir [OF False]
    have "tardir_loop sys cfg prompt tm (a # sel) rcs st =
            tardir_loop sys cfg prompt tm sel rcs
              \<lparr>world = world st, log = log st @ [IsDir (path a) False]\<rparr>"
      and "tardir_loop sys cfg prompt tm (b # sel') rcs st' =
            tardir_loop sys cfg prompt tm sel' rcs
              \<lparr>world = world st', log = log st' @ [IsDir (path b) False]\<rparr>"
      by simp_all
    then show ?thesis using w by (simp only:) (rule rest, simp)
  next
    case True
    with dir have da: "isdir sys (world st) (path a)" and db: "isdir sys (world st') (path b)"
      by simp_all
    show ?thesis
    proof (cases "isfile sys (world st') (archive_path b)")
      case False
      with ap w have "\<not> isfile sys (world st) (archive_path a)" by simp
      from loop_no_archive [OF da this] loop_no_archive [OF db False]
      have "tardir_loop sys cfg prompt tm (a # sel) rcs st =
              submit sys cfg prompt tm a sel rcs
                \<lparr>world = world st,
                 log = log st @ [IsDir (path a) True, IsFile (archive_path a) False]\<rparr>"
        and "tardir_loop sys cfg prompt tm (b # sel') rcs st' =
              submit sys cfg prompt tm b sel' rcs
                \<lparr>world = world st',
                 log = log st' @ [IsDir (path b) True, IsFile (archive_path b) False]\<rparr>"
        by simp_all
      then show ?thesis
        using w by (simp only:) (rule submit_cong [OF sp _ rest], simp_all)
    next
      case fb: True
      with ap w have fa: "isfile sys (world st) (archive_path a)" by simp
      obtain answer w0 where pb: "prompt (''Overwrite '' @ archive_path b @ '' ?'')
         (archive_path b @ '' exists'') (world st') = (answer, w0)" by fastforce
      with ap w have pa: "prompt (''Overwrite '' @ archive_path a @ '' ?'')
         (archive_path a @ '' exists'') (world st) = (answer, w0)" by simp
      show ?thesis
      proof (cases answer)
        case False
        with pa pb
        have "tardir_loop sys cfg prompt tm (a # sel) rcs st =
                tardir_loop sys cfg prompt tm sel rcs
                  \<lparr>world = w0, log = log st @ [IsDir (path a) True,
                     IsFile (archive_path a) True, overwrite_asked a False]\<rparr>"
          and "tardir_loop sys cfg prompt tm (b # sel') rcs st' =
                tardir_loop sys cfg prompt tm sel' rcs
                  \<lparr>world = w0, log = log st' @ [IsDir (path b) True,
                     IsFile (archive_path b) True, overwrite_asked b False]\<rparr>"
          using loop_declined [where prompt = prompt, OF da fa]
            loop_declined [where prompt = prompt, OF db fb] by simp_all
        then show ?thesis by (simp only:) (rule rest, simp)
      next
        case True
        with pa pb
        have "tardir_loop sys cfg prompt tm (a # sel) rcs st =
                submit sys cfg prompt tm a sel rcs
                  \<lparr>world = w0, log = log st @ [IsDir (path a) True,
                     IsFile (archive_path a) True, overwrite_asked a True]\<rparr>"
          and "tardir_loop sys cfg prompt tm (b # sel') rcs st' =
                submit sys cfg prompt tm b sel' rcs
                  \<lparr>world = w0, log = log st' @ [IsDir (path b) True,
                     IsFile (archive_path b) True, overwrite_asked b True]\<rparr>"
          using loop_overwrite [where prompt = prompt, OF da fa]
            loop_overwrite [where prompt = prompt, OF db fb] by simp_all
        then show ?thesis
          by (simp only:) (rule submit_cong [OF sp _ rest], simp_all)
      qed
    qed
  qed
qed

subsection \<open>Whole runs\<close>

text \<open>
  \<^verbatim>\<open>tardir_go\<close> shows the confirmation dialog and, when it is accepted, runs the loop.
  A run that was not in test mode and returned return codes left a log that is the
  confirmation followed by one segment of events for each selected item, in order.
\<close>

lemma tardir_go_unfold:
  "tardir_go sys cfg sel prompt tm st =
     (case prompt (confirm_msg sel) (confirm_title sel) (world st) of
        (answer, w) \<Rightarrow>
          if answer then
            tardir_loop sys cfg prompt tm sel []
              \<lparr>world = w, log = log st @ [Asked (confirm_msg sel) (confirm_title sel) True]\<rparr>
          else (Inr NoResult,
                \<lparr>world = w, log = log st @ [Asked (confirm_msg sel) (confirm_title sel) False]\<rparr>))"
  by (simp add: tardir_go_def format_confirm_msg format_confirm_title confirm_msg_def
      confirm_title_def ask_def Let_def split: prod.splits)

lemma tardir_go_run_trace:
  assumes "tardir_go sys cfg sel prompt False \<lparr>world = w, log = []\<rparr> = (Inr (Returncodes rcs), st')"
  shows "\<exists>segs. list_all2 (item_trace cfg) sel segs \<and>
           log st' = Asked (confirm_msg sel) (confirm_title sel) True # concat segs \<and>
           rcs = returncodes_of (concat segs)"
proof -
  obtain answer w1 where pr: "prompt (confirm_msg sel) (confirm_title sel) w = (answer, w1)"
    by fastforce
  with assms have answer: answer
    by (cases answer) (simp_all add: tardir_go_unfold)
  with assms pr have "tardir_loop sys cfg prompt False sel []
      \<lparr>world = w1, log = [Asked (confirm_msg sel) (confirm_title sel) True]\<rparr> =
      (Inr (Returncodes rcs), st')"
    by (simp add: tardir_go_unfold)
  from tardir_loop_trace [OF this] show ?thesis by auto
qed

lemma tardir_go_run_result:
  assumes "tardir_go sys cfg sel prompt False \<lparr>world = w, log = []\<rparr> = (Inr res, st')"
  shows "(res = NoResult \<and> log st' = [Asked (confirm_msg sel) (confirm_title sel) False]) \<or>
         (\<exists>rcs. res = Returncodes rcs)"
proof -
  obtain answer w1 where pr: "prompt (confirm_msg sel) (confirm_title sel) w = (answer, w1)"
    by fastforce
  show ?thesis
  proof (cases answer)
    case False
    with assms pr show ?thesis by (auto simp: tardir_go_unfold)
  next
    case True
    with assms pr have "tardir_loop sys cfg prompt False sel []
      \<lparr>world = w1, log = [Asked (confirm_msg sel) (confirm_title sel) True]\<rparr> = (Inr res, st')"
      by (simp add: tardir_go_unfold)
    from tardir_loop_trace [OF this] show ?thesis by blast
  qed
qed

lemma tardir_go_test_cmdline:
  assumes "tardir_go sys cfg sel prompt True st = (Inr (Cmdline c), st')"
  shows "\<exists>item \<in> set sel. make_cmdline cfg (stripped_path item) = Inr c"
proof -
  obtain answer w1 where
    pr: "prompt (confirm_msg sel) (confirm_title sel) (world st) = (answer, w1)"
    by fastforce
  with assms obtain s where "tardir_loop sys cfg prompt True sel [] s = (Inr (Cmdline c), st')"
    by (cases answer) (simp_all add: tardir_go_unfold)
  from tardir_loop_test_cmdline [OF this] show ?thesis .
qed

subsection \<open>The events of one item\<close>

lemma item_trace_spawned:
  assumes "item_trace cfg item seg"
  shows "map Inr (spawned seg) =
           (if processed item seg then [make_cmdline cfg (stripped_path item)] else [])"
    and "length (returncodes_of seg) = length (spawned seg)"
  using assms
  by (auto simp: item_trace_def processed_def overwrite_asked_def split: sum.splits)

lemma traces_counts:
  assumes "list_all2 (item_trace cfg) sel segs"
  shows "length (returncodes_of (concat segs)) = length (spawned (concat segs))"
  using assms
  by (induction rule: list_all2_induct)
    (simp_all add: returncodes_of_append spawned_append item_trace_spawned(2))

lemma item_trace_cmdline:
  assumes "item_trace cfg item seg" "c \<in> set (spawned seg)"
  shows "make_cmdline cfg (stripped_path item) = Inr c"
proof -
  from assms(2) have "spawned seg \<noteq> []" by auto
  with item_trace_spawned(1) [OF assms(1)]
  have "map Inr (spawned seg) = [make_cmdline cfg (stripped_path item)]"
    by (simp split: if_splits)
  then have "spawned seg = [c'] \<Longrightarrow> make_cmdline cfg (stripped_path item) = Inr c'" for c'
    by simp
  moreover from \<open>map Inr (spawned seg) = [make_cmdline cfg (stripped_path item)]\<close>
  obtain c' where "spawned seg = [c']" by (auto simp: map_eq_Cons_conv)
  ultimately show ?thesis using assms(2) by simp
qed

lemma traces_cmdline:
  assumes "list_all2 (item_trace cfg) sel segs" "c \<in> set (spawned (concat segs))"
  shows "\<exists>item \<in> set sel. make_cmdline cfg (stripped_path item) = Inr c"
  using assms
proof (induction rule: list_all2_induct)
  case Nil
  then show ?case by simp
next
  case (Cons item sel seg segs)
  from Cons.prems have "c \<in> set (spawned seg) \<or> c \<in> set (spawned (concat segs))"
    by (simp add: spawned_append)
  then show ?case
  proof
    assume "c \<in> set (spawned seg)"
    from item_trace_cmdline [OF Cons.hyps(1) this] show ?thesis by simp
  next
    assume "c \<in> set (spawned (concat segs))"
    from Cons.IH [OF this] show ?thesis by auto
  qed
qed

lemma tardir_go_run_cmdline:
  assumes "tardir_go sys cfg sel prompt False \<lparr>world = w, log = []\<rparr> = (Inr res, st')"
    "c \<in> set (spawned (log st'))"
  shows "\<exists>item \<in> set sel. make_cmdline cfg (stripped_path item) = Inr c"
proof -
  from tardir_go_run_result [OF assms(1)] assms(2) obtain rcs where "res = Returncodes rcs"
    by auto
  with assms(1)
  have "tardir_go sys cfg sel prompt False \<lparr>world = w, log = []\<rparr> = (Inr (Returncodes rcs), st')"
    by simp
  from tardir_go_run_trace [OF this] obtain segs
    where t: "list_all2 (item_trace cfg) sel segs"
      and l: "log st' = Asked (confirm_msg sel) (confirm_title sel) True # concat segs"
    by blast
  from l assms(2) have "c \<in> set (spawned (concat segs))" by simp
  from traces_cmdline [OF t this] show ?thesis .
qed

lemma item_trace_shell:
  assumes "item_trace cfg item seg" "processed item seg"
  shows "\<exists>c d. spawned seg = [c] \<and> get_dest_path (stripped_path item) = Inr d \<and>
           drop 9 c = [''sh'', ''-c'',
             shell_text d (dirname (stripped_path item)) (basename (stripped_path item))]"
proof -
  from item_trace_spawned(1) [OF assms(1)] assms(2)
  have "map Inr (spawned seg) = [make_cmdline cfg (stripped_path item)]" by simp
  then obtain c where c: "spawned seg = [c]"
    and m: "make_cmdline cfg (stripped_path item) = Inr c" by (auto simp: map_eq_Cons_conv)
  from make_cmdline_shell [OF m] c show ?thesis by blast
qed

lemma item_trace_overwrite:
  assumes "item_trace cfg item seg"
  shows "(overwrite_asked item True \<in> set seg \<or> overwrite_asked item False \<in> set seg) \<longleftrightarrow>
         IsFile (stripped_path item @ ''.tar'') True \<in> set seg"
  using assms
  by (auto simp: item_trace_def overwrite_asked_def archive_path_def split: sum.splits)

lemma item_trace_written:
  assumes "item_trace cfg item seg" "c \<in> set (spawned seg)"
  shows "\<exists>d. get_dest_path (stripped_path item) = Inr d \<and>
           drop 9 c = [''sh'', ''-c'',
             shell_text d (dirname (stripped_path item)) (basename (stripped_path item))] \<and>
           (sublist ''_xyz/'' (stripped_path item) \<longrightarrow>
              d @ ''.tar'' \<noteq> stripped_path item @ ''.tar'')"
proof -
  from make_cmdline_shell [OF item_trace_cmdline [OF assms]] obtain d
    where d: "get_dest_path (stripped_path item) = Inr d"
      and c: "drop 9 c = [''sh'', ''-c'',
             shell_text d (dirname (stripped_path item)) (basename (stripped_path item))]"
    by blast
  have "d @ ''.tar'' \<noteq> stripped_path item @ ''.tar''" if "sublist ''_xyz/'' (stripped_path item)"
    using get_dest_path_differs [OF that d] by auto
  with d c show ?thesis by blast
qed

subsection \<open>The parent directory, the base name and the words of the shell text\<close>

lemma sublist_single: "sublist [x] ys \<longleftrightarrow> x \<in> set ys"
  by (induction ys) (auto simp: sublist_Cons_right)

lemma rfind_last_slash:
  assumes "CHR ''/'' \<notin> set base"
  shows "rfind (pre @ ''/'' @ base) ''/'' = int (length pre)"
proof -
  from assms have "\<not> sublist ''/'' (tl (''/'' @ base))" by (simp add: sublist_single)
  then show ?thesis by (intro rfind_unique) simp_all
qed

lemma basename_split:
  assumes "CHR ''/'' \<notin> set base"
  shows "basename (pre @ ''/'' @ base) = base"
  using rfind_last_slash [OF assms, of pre] by (simp add: basename_def nat_add_distrib)

lemma rstrip_no_trailing:
  assumes "s \<noteq> []" "last s \<notin> set chars"
  shows "rstrip s chars = s"
proof -
  from assms have "rev s \<noteq> []" "hd (rev s) \<notin> set chars" by (simp_all add: hd_rev)
  then have "dropWhile (\<lambda>c. c \<in> set chars) (rev s) = rev s" by (cases "rev s") simp_all
  then show ?thesis by (simp add: rstrip_def)
qed

lemma rstrip_last:
  assumes "rstrip s chars \<noteq> []"
  shows "last (rstrip s chars) \<notin> set chars"
proof -
  let ?d = "dropWhile (\<lambda>c. c \<in> set chars) (rev s)"
  from assms have ne: "?d \<noteq> []" by (simp add: rstrip_def)
  then have "hd ?d \<notin> set chars" using hd_dropWhile [of "\<lambda>c. c \<in> set chars" "rev s"] by simp
  with ne show ?thesis by (simp add: rstrip_def last_rev)
qed

lemma dirname_split:
  assumes "CHR ''/'' \<notin> set base" "parent \<noteq> [] \<longrightarrow> last parent \<noteq> CHR ''/''"
  shows "dirname (parent @ replicate (Suc k) CHR ''/'' @ base) =
           (if parent = [] then replicate (Suc k) CHR ''/'' else parent)"
proof -
  let ?pre = "parent @ replicate k CHR ''/''"
  let ?head = "parent @ replicate (Suc k) CHR ''/''"
  have p: "parent @ replicate (Suc k) CHR ''/'' @ base = ?pre @ ''/'' @ base"
    by (simp add: replicate_append_same)
  have r: "rfind (?pre @ ''/'' @ base) ''/'' = int (length ?pre)"
    by (rule rfind_last_slash [OF assms(1)])
  have h: "take (nat (int (length ?pre) + 1)) (?pre @ ''/'' @ base) = ?head"
    by (simp add: nat_add_distrib replicate_append_same)
  have d: "dirname (?pre @ ''/'' @ base) =
      (if ?head \<noteq> replicate (length ?head) CHR ''/'' then rstrip ?head ''/'' else ?head)"
    unfolding dirname_def r Let_def h by simp
  show ?thesis
  proof (cases "parent = []")
    case True
    with d p show ?thesis by simp
  next
    case False
    with assms(2) have l: "last parent \<noteq> CHR ''/''" by simp
    from False have "last parent \<in> set ?head" by simp
    with l have "?head \<noteq> replicate (length ?head) CHR ''/''"
      by (metis in_set_replicate)
    moreover have "rstrip ?head ''/'' = parent"
      using rstrip_slashes [of parent "Suc k"] rstrip_no_trailing [OF False, of "''/''"] l
      by simp
    ultimately show ?thesis using d p False by simp
  qed
qed

lemma get_dest_path_chars:
  assumes "get_dest_path p = Inr d"
  shows "set d \<subseteq> set p \<union> set ''_dcdm/''"
proof -
  have "set (take n p) \<subseteq> set p" "set (drop m p) \<subseteq> set p" for n m
    by (simp_all add: set_take_subset set_drop_subset)
  with assms show ?thesis
    by (auto simp: get_dest_path_eq split: if_splits dest: in_set_takeD in_set_dropD)
qed

lemma sh_words_from_word:
  "CHR '' '' \<notin> set w \<Longrightarrow> sh_words_from acc (w @ rest) = sh_words_from (acc @ w) rest"
  by (induction w arbitrary: acc) auto

lemma sh_words_shell_text:
  assumes "CHR '' '' \<notin> set d" "CHR '' '' \<notin> set parent" "CHR '' '' \<notin> set base"
    "parent \<noteq> []" "base \<noteq> []"
  shows "sh_words (shell_text d parent base) =
     [''/usr/bin/tar'', ''-cf'', d @ ''.tar'', ''-C'', parent, base, '';'',
      ''tar'', ''-tvf'', d @ ''.tar'', ''|'', ''sort'', ''>'', d @ ''.tar.list'']"
  using assms by (simp add: sh_words_def shell_text_def sh_words_from_word)

lemma item_trace_tar_words:
  assumes "item_trace cfg item seg" "processed item seg"
  shows "\<exists>c d. spawned seg = [c] \<and> get_dest_path (stripped_path item) = Inr d \<and>
           drop 9 c = [''sh'', ''-c'',
             shell_text d (dirname (stripped_path item)) (basename (stripped_path item))] \<and>
           (\<forall>parent k base.
              stripped_path item = parent @ replicate (Suc k) CHR ''/'' @ base \<and>
              CHR ''/'' \<notin> set base \<and> (parent \<noteq> [] \<longrightarrow> last parent \<noteq> CHR ''/'') \<and>
              set (stripped_path item) \<inter> set shell_special = {} \<longrightarrow>
                dirname (stripped_path item) =
                  (if parent = [] then replicate (Suc k) CHR ''/'' else parent) \<and>
                basename (stripped_path item) = base \<and> base \<noteq> [] \<and>
                sh_words (shell_text d (dirname (stripped_path item))
                            (basename (stripped_path item))) =
                  [''/usr/bin/tar'', ''-cf'', d @ ''.tar'', ''-C'',
                   (if parent = [] then replicate (Suc k) CHR ''/'' else parent), base, '';'',
                   ''tar'', ''-tvf'', d @ ''.tar'', ''|'', ''sort'', ''>'', d @ ''.tar.list''])"
proof -
  let ?p = "stripped_path item"
  from item_trace_shell [OF assms] obtain c d
    where c: "spawned seg = [c]" and d: "get_dest_path ?p = Inr d"
      and t: "drop 9 c = [''sh'', ''-c'', shell_text d (dirname ?p) (basename ?p)]"
    by blast
  have words: "dirname ?p = (if parent = [] then replicate (Suc k) CHR ''/'' else parent) \<and>
      basename ?p = base \<and> base \<noteq> [] \<and>
      sh_words (shell_text d (dirname ?p) (basename ?p)) =
        [''/usr/bin/tar'', ''-cf'', d @ ''.tar'', ''-C'',
         (if parent = [] then replicate (Suc k) CHR ''/'' else parent), base, '';'',
         ''tar'', ''-tvf'', d @ ''.tar'', ''|'', ''sort'', ''>'', d @ ''.tar.list'']"
    if split: "?p = parent @ replicate (Suc k) CHR ''/'' @ base"
      and base: "CHR ''/'' \<notin> set base"
      and parent: "parent \<noteq> [] \<longrightarrow> last parent \<noteq> CHR ''/''"
      and plain: "set ?p \<inter> set shell_special = {}"
    for parent k base
  proof -
    let ?parent = "if parent = [] then replicate (Suc k) CHR ''/'' else parent"
    have dn: "dirname ?p = ?parent"
      unfolding split by (rule dirname_split [OF base parent])
    have "?p = (parent @ replicate k CHR ''/'') @ ''/'' @ base"
      unfolding split by (simp add: replicate_append_same)
    then have bn: "basename ?p = base"
      using basename_split [OF base, of "parent @ replicate k CHR ''/''"] by simp
    have ne: "base \<noteq> []"
    proof
      assume "base = []"
      with split have "?p \<noteq> []" and "last ?p = CHR ''/''" by simp_all
      with rstrip_last [of "path item" "''/''"] show False
        by (simp add: stripped_path_def)
    qed
    have blank: "CHR '' '' \<in> set shell_special" by (simp add: shell_special_def)
    with plain have np: "CHR '' '' \<notin> set ?p" by blast
    with split have "CHR '' '' \<notin> set parent" "CHR '' '' \<notin> set base" by auto
    then have b1: "CHR '' '' \<notin> set ?parent" "CHR '' '' \<notin> set base" by simp_all
    from get_dest_path_chars [OF d] np have b2: "CHR '' '' \<notin> set d" by auto
    have "?parent \<noteq> []" by simp
    from sh_words_shell_text [OF b2 b1 this ne] dn bn ne show ?thesis by simp
  qed
  from c d t words show ?thesis by blast
qed

subsection \<open>Evaluating the model on the environment of the test\<close>

lemmas eval_defs = tardir_go_def format_str_def emit_def str_nat.simps digit_def Let_def ask_def
  check_isdir_def check_isfile_def spawn_def make_cmdline_def get_dest_path_def rfind_def
  rreplace_def rsplit_def basename_def dirname_def rstrip_def config_def cmdline_template_def
  test_os_def test_os_archived_def test_dirs_def fake_askyesno_def cancel_def
  tardir_loop.simps shell_text_def all_dirs_os_def sh_words_def

subsection \<open>The command submitted for a directory\<close>

text \<open>
  Claim C2, as amended. In a run that submits jobs and returns, every selected item
  that is processed has exactly one job, and the end of its command line is
  \<^verbatim>\<open>sh -c\<close> with the shell text made by substituting into
  \<^verbatim>\<open>/usr/bin/tar -cf D.tar -C PARENT BASE ;  tar -tvf D.tar | sort > D.tar.list\<close>
  the destination path of the stripped path for \<open>D\<close>, its \<^verbatim>\<open>dirname\<close> for \<open>PARENT\<close> and
  its \<^verbatim>\<open>basename\<close> for \<open>BASE\<close>. When the stripped path is some \<open>parent\<close>, one or more
  slashes and a last component \<open>base\<close>, and has no blank or shell-special character,
  then \<open>BASE\<close> is \<open>base\<close>, which is not empty, \<open>PARENT\<close> is \<open>parent\<close> (the leading slashes
  when \<open>parent\<close> is empty), and the words of the shell text are
  \<^verbatim>\<open>/usr/bin/tar -cf D.tar -C PARENT BASE\<close>, \<^verbatim>\<open>;\<close> and the listing pipeline
  \<^verbatim>\<open>tar -tvf D.tar | sort > D.tar.list\<close>: the command archives the directory's base name
  from its parent directory into \<open>D.tar\<close> and writes the sorted listing of that archive
  beside it. Of a path with a blank or a special character, without a slash, or of
  the root, only the substitution is stated.
\<close>

theorem tardir_go_submits_tar_and_listing:
  assumes "tardir_go sys cfg sel prompt False \<lparr>world = w, log = []\<rparr> =
             (Inr (Returncodes rcs), st')"
  shows "\<exists>segs. log st' = Asked (confirm_msg sel) (confirm_title sel) True # concat segs \<and>
           list_all2 (\<lambda>item seg. item_trace cfg item seg \<and>
              (processed item seg \<longrightarrow>
                 (\<exists>c d. spawned seg = [c] \<and> get_dest_path (stripped_path item) = Inr d \<and>
                    drop 9 c = [''sh'', ''-c'',
                      shell_text d (dirname (stripped_path item))
                        (basename (stripped_path item))] \<and>
                    (\<forall>parent k base.
                       stripped_path item = parent @ replicate (Suc k) CHR ''/'' @ base \<and>
                       CHR ''/'' \<notin> set base \<and>
                       (parent \<noteq> [] \<longrightarrow> last parent \<noteq> CHR ''/'') \<and>
                       set (stripped_path item) \<inter> set shell_special = {} \<longrightarrow>
                         dirname (stripped_path item) =
                           (if parent = [] then replicate (Suc k) CHR ''/'' else parent) \<and>
                         basename (stripped_path item) = base \<and> base \<noteq> [] \<and>
                         sh_words (shell_text d (dirname (stripped_path item))
                                     (basename (stripped_path item))) =
                           [''/usr/bin/tar'', ''-cf'', d @ ''.tar'', ''-C'',
                            (if parent = [] then replicate (Suc k) CHR ''/'' else parent),
                            base, '';'',
                            ''tar'', ''-tvf'', d @ ''.tar'', ''|'', ''sort'', ''>'',
                            d @ ''.tar.list'']))))
             sel segs"
proof -
  from tardir_go_run_trace [OF assms] obtain segs
    where t: "list_all2 (item_trace cfg) sel segs"
      and l: "log st' = Asked (confirm_msg sel) (confirm_title sel) True # concat segs"
    by blast
  from t have "list_all2 (\<lambda>item seg. item_trace cfg item seg \<and>
              (processed item seg \<longrightarrow>
                 (\<exists>c d. spawned seg = [c] \<and> get_dest_path (stripped_path item) = Inr d \<and>
                    drop 9 c = [''sh'', ''-c'',
                      shell_text d (dirname (stripped_path item))
                        (basename (stripped_path item))] \<and>
                    (\<forall>parent k base.
                       stripped_path item = parent @ replicate (Suc k) CHR ''/'' @ base \<and>
                       CHR ''/'' \<notin> set base \<and>
                       (parent \<noteq> [] \<longrightarrow> last parent \<noteq> CHR ''/'') \<and>
                       set (stripped_path item) \<inter> set shell_special = {} \<longrightarrow>
                         dirname (stripped_path item) =
                           (if parent = [] then replicate (Suc k) CHR ''/'' else parent) \<and>
                         basename (stripped_path item) = base \<and> base \<noteq> [] \<and>
                         sh_words (shell_text d (dirname (stripped_path item))
                                     (basename (stripped_path item))) =
                           [''/usr/bin/tar'', ''-cf'', d @ ''.tar'', ''-C'',
                            (if parent = [] then replicate (Suc k) CHR ''/'' else parent),
                            base, '';'',
                            ''tar'', ''-tvf'', d @ ''.tar'', ''|'', ''sort'', ''>'',
                            d @ ''.tar.list'']))))
             sel segs"
  proof (rule list_all2_mono)
    fix item seg
    assume it: "item_trace cfg item seg"
    show "item_trace cfg item seg \<and>
              (processed item seg \<longrightarrow>
                 (\<exists>c d. spawned seg = [c] \<and> get_dest_path (stripped_path item) = Inr d \<and>
                    drop 9 c = [''sh'', ''-c'',
                      shell_text d (dirname (stripped_path item))
                        (basename (stripped_path item))] \<and>
                    (\<forall>parent k base.
                       stripped_path item = parent @ replicate (Suc k) CHR ''/'' @ base \<and>
                       CHR ''/'' \<notin> set base \<and>
                       (parent \<noteq> [] \<longrightarrow> last parent \<noteq> CHR ''/'') \<and>
                       set (stripped_path item) \<inter> set shell_special = {} \<longrightarrow>
                         dirname (stripped_path item) =
                           (if parent = [] then replicate (Suc k) CHR ''/'' else parent) \<and>
                         basename (stripped_path item) = base \<and> base \<noteq> [] \<and>
                         sh_words (shell_text d (dirname (stripped_path item))
                                     (basename (stripped_path item))) =
                           [''/usr/bin/tar'', ''-cf'', d @ ''.tar'', ''-C'',
                            (if parent = [] then replicate (Suc k) CHR ''/'' else parent),
                            base, '';'',
                            ''tar'', ''-tvf'', d @ ''.tar'', ''|'', ''sort'', ''>'',
                            d @ ''.tar.list''])))"
      using it item_trace_tar_words [OF it] by (intro conjI impI) assumption+
  qed
  with l show ?thesis by blast
qed

text \<open>
  The theorem at the run of the test on \<^verbatim>\<open>/tmp/foo_xyz/sub\<close>, whose stripped path
  splits into \<^verbatim>\<open>/tmp/foo_xyz\<close>, one slash and \<^verbatim>\<open>sub\<close>.
\<close>

theorem tardir_go_submits_tar_and_listing_witness:
  "fst (tardir_go test_os config [\<lparr>path = ''/tmp/foo_xyz/sub''\<rparr>] fake_askyesno False
          \<lparr>world = (), log = []\<rparr>) = Inr (Returncodes [6]) \<and>
   stripped_path \<lparr>path = ''/tmp/foo_xyz/sub''\<rparr> =
     ''/tmp/foo_xyz'' @ replicate (Suc 0) CHR ''/'' @ ''sub'' \<and>
   CHR ''/'' \<notin> set ''sub'' \<and> last ''/tmp/foo_xyz'' \<noteq> CHR ''/'' \<and>
   set (stripped_path \<lparr>path = ''/tmp/foo_xyz/sub''\<rparr>) \<inter> set shell_special = {} \<and>
   sh_words (sub_cmdline ! 11) =
     [''/usr/bin/tar'', ''-cf'', ''/tmp/foo_dcdm/sub.tar'', ''-C'', ''/tmp/foo_xyz'', ''sub'',
      '';'', ''tar'', ''-tvf'', ''/tmp/foo_dcdm/sub.tar'', ''|'', ''sort'', ''>'',
      ''/tmp/foo_dcdm/sub.tar.list''] \<and>
   (\<exists>segs. log (snd (tardir_go test_os config [\<lparr>path = ''/tmp/foo_xyz/sub''\<rparr>] fake_askyesno
                  False \<lparr>world = (), log = []\<rparr>)) =
        Asked (confirm_msg [\<lparr>path = ''/tmp/foo_xyz/sub''\<rparr>])
          (confirm_title [\<lparr>path = ''/tmp/foo_xyz/sub''\<rparr>]) True # concat segs \<and>
      list_all2 (\<lambda>item seg. item_trace config item seg \<and>
          (processed item seg \<longrightarrow>
             (\<exists>c d. spawned seg = [c] \<and> get_dest_path (stripped_path item) = Inr d \<and>
                drop 9 c = [''sh'', ''-c'',
                  shell_text d (dirname (stripped_path item))
                    (basename (stripped_path item))] \<and>
                (\<forall>parent k base.
                   stripped_path item = parent @ replicate (Suc k) CHR ''/'' @ base \<and>
                   CHR ''/'' \<notin> set base \<and>
                   (parent \<noteq> [] \<longrightarrow> last parent \<noteq> CHR ''/'') \<and>
                   set (stripped_path item) \<inter> set shell_special = {} \<longrightarrow>
                     dirname (stripped_path item) =
                       (if parent = [] then replicate (Suc k) CHR ''/'' else parent) \<and>
                     basename (stripped_path item) = base \<and> base \<noteq> [] \<and>
                     sh_words (shell_text d (dirname (stripped_path item))
                                 (basename (stripped_path item))) =
                       [''/usr/bin/tar'', ''-cf'', d @ ''.tar'', ''-C'',
                        (if parent = [] then replicate (Suc k) CHR ''/'' else parent),
                        base, '';'',
                        ''tar'', ''-tvf'', d @ ''.tar'', ''|'', ''sort'', ''>'',
                        d @ ''.tar.list'']))))
        [\<lparr>path = ''/tmp/foo_xyz/sub''\<rparr>] segs)"
proof -
  let ?run = "tardir_go test_os config [\<lparr>path = ''/tmp/foo_xyz/sub''\<rparr>] fake_askyesno False
          \<lparr>world = (), log = []\<rparr>"
  have h: "?run = (Inr (Returncodes [6]), snd ?run)"
    by (simp add: eval_defs)
  have f: "fst ?run = Inr (Returncodes [6])"
    using arg_cong [OF h, of fst] by (simp only: fst_conv)
  have s: "stripped_path \<lparr>path = ''/tmp/foo_xyz/sub''\<rparr> =
     ''/tmp/foo_xyz'' @ replicate (Suc 0) CHR ''/'' @ ''sub''"
    by (simp add: stripped_path_def rstrip_def)
  have b: "CHR ''/'' \<notin> set ''sub''" "last ''/tmp/foo_xyz'' \<noteq> CHR ''/''" by simp_all
  have p: "set (stripped_path \<lparr>path = ''/tmp/foo_xyz/sub''\<rparr>) \<inter> set shell_special = {}"
    by (simp add: stripped_path_def rstrip_def shell_special_def)
  have w: "sh_words (sub_cmdline ! 11) =
     [''/usr/bin/tar'', ''-cf'', ''/tmp/foo_dcdm/sub.tar'', ''-C'', ''/tmp/foo_xyz'', ''sub'',
      '';'', ''tar'', ''-tvf'', ''/tmp/foo_dcdm/sub.tar'', ''|'', ''sort'', ''>'',
      ''/tmp/foo_dcdm/sub.tar.list'']"
    by (simp add: sub_cmdline_def sh_words_def)
  from f s b p w tardir_go_submits_tar_and_listing [OF h] show ?thesis
    by (intro conjI)
qed

text \<open>
  Claim C2 as it was stated fails: the path is substituted without quoting. For the
  directory \<^verbatim>\<open>/tmp/my dir\<close> the words of the submitted shell text give \<^verbatim>\<open>tar\<close> the
  archive name \<^verbatim>\<open>/tmp/my\<close> and the members \<^verbatim>\<open>dir.tar\<close>, \<^verbatim>\<open>my\<close> and \<^verbatim>\<open>dir\<close>, so
  the directory is not archived into \<^verbatim>\<open>/tmp/my dir.tar\<close>. For the root directory the
  stripped path is empty and the command names neither a parent directory nor a
  member.
\<close>

theorem tardir_go_unquoted_path_counterexample:
  "spawned (log (snd (tardir_go all_dirs_os config [\<lparr>path = ''/tmp/my dir''\<rparr>] fake_askyesno False
      \<lparr>world = (), log = []\<rparr>))) =
     [[''/opt/Autodesk/backburner/cmdjob'', ''-manager:manager'', ''-group:TARNODES'',
       ''-priority:30'', ''-jobName'', ''my dir DCDM'', ''-userRights'', ''-description'',
       ''TAR + List file'', ''sh'', ''-c'',
       ''/usr/bin/tar -cf /tmp/my dir.tar -C /tmp my dir ;  tar -tvf /tmp/my dir.tar | sort > /tmp/my dir.tar.list'']] \<and>
   sh_words ''/usr/bin/tar -cf /tmp/my dir.tar -C /tmp my dir ;  tar -tvf /tmp/my dir.tar | sort > /tmp/my dir.tar.list'' =
     [''/usr/bin/tar'', ''-cf'', ''/tmp/my'', ''dir.tar'', ''-C'', ''/tmp'', ''my'', ''dir'',
      '';'', ''tar'', ''-tvf'', ''/tmp/my'', ''dir.tar'', ''|'', ''sort'', ''>'', ''/tmp/my'',
      ''dir.tar.list''] \<and>
   spawned (log (snd (tardir_go all_dirs_os config [\<lparr>path = ''/''\<rparr>] fake_askyesno False
      \<lparr>world = (), log = []\<rparr>))) =
     [[''/opt/Autodesk/backburner/cmdjob'', ''-manager:manager'', ''-group:TARNODES'',
       ''-priority:30'', ''-jobName'', '' DCDM'', ''-userRights'', ''-description'',
       ''TAR + List file'', ''sh'', ''-c'',
       ''/usr/bin/tar -cf .tar -C   ;  tar -tvf .tar | sort > .tar.list'']]"
  by (simp add: eval_defs all_dirs_os_def sh_words_def)

text \<open>
  Claim C6. With the configuration of the source, the command line formatted for a
  stripped path \<open>p\<close> is the fixed list below: the executable, manager, group and
  priority of the configuration, \<^verbatim>\<open>-userRights\<close>, the description and the shell text
  are constants, and only the job name (the base name followed by \<^verbatim>\<open> DCDM\<close>) and the
  three values in the shell text depend on \<open>p\<close>. Every command line that a run
  submits, and the command line that test mode returns, is this list for the stripped
  path of a selected item.
\<close>

theorem tardir_go_fixed_template:
  "(case get_dest_path p of
      Inl e \<Rightarrow> False
    | Inr d \<Rightarrow>
        make_cmdline config p =
          Inr [''/opt/Autodesk/backburner/cmdjob'', ''-manager:manager'', ''-group:TARNODES'',
               ''-priority:30'', ''-jobName'', basename p @ '' DCDM'', ''-userRights'',
               ''-description'', ''TAR + List file'', ''sh'', ''-c'',
               shell_text d (dirname p) (basename p)]) \<and>
   (tardir_go sys config sel prompt False \<lparr>world = w, log = []\<rparr> = (Inr res, st') \<longrightarrow>
      (\<forall>c \<in> set (spawned (log st')).
         \<exists>item \<in> set sel. make_cmdline config (stripped_path item) = Inr c)) \<and>
   (tardir_go sys config sel prompt True st = (Inr (Cmdline c), st'') \<longrightarrow>
      (\<exists>item \<in> set sel. make_cmdline config (stripped_path item) = Inr c))"
proof (intro conjI impI ballI)
  obtain d where d: "get_dest_path p = Inr d" using get_dest_path_total by blast
  have "make_cmdline config p =
          Inr [''/opt/Autodesk/backburner/cmdjob'', ''-manager:'' @ ''manager'',
               ''-group:'' @ ''TARNODES'', ''-priority:'' @ ''30'', ''-jobName'',
               basename p @ '' DCDM'', ''-userRights'',
               ''-description'', ''TAR + List file'', ''sh'', ''-c'',
               shell_text d (dirname p) (basename p)]"
    by (rule make_cmdline_config [OF _ _ _ _ d]) (simp_all add: config_def)
  with d show "case get_dest_path p of
      Inl e \<Rightarrow> False
    | Inr d \<Rightarrow>
        make_cmdline config p =
          Inr [''/opt/Autodesk/backburner/cmdjob'', ''-manager:manager'', ''-group:TARNODES'',
               ''-priority:30'', ''-jobName'', basename p @ '' DCDM'', ''-userRights'',
               ''-description'', ''TAR + List file'', ''sh'', ''-c'',
               shell_text d (dirname p) (basename p)]" by simp
next
  fix c'
  assume "tardir_go sys config sel prompt False \<lparr>world = w, log = []\<rparr> = (Inr res, st')"
    and "c' \<in> set (spawned (log st'))"
  then show "\<exists>item \<in> set sel. make_cmdline config (stripped_path item) = Inr c'"
    by (rule tardir_go_run_cmdline)
next
  assume "tardir_go sys config sel prompt True st = (Inr (Cmdline c), st'')"
  then show "\<exists>item \<in> set sel. make_cmdline config (stripped_path item) = Inr c"
    by (rule tardir_go_test_cmdline)
qed

text \<open>
  The theorem at \<^verbatim>\<open>/tmp/foo_xyz/sub\<close>, in a run and in test mode.
\<close>

theorem tardir_go_fixed_template_witness:
  "make_cmdline config ''/tmp/foo_xyz/sub'' = Inr sub_cmdline \<and>
   fst (tardir_go test_os config [\<lparr>path = ''/tmp/foo_xyz/sub''\<rparr>] fake_askyesno False
          \<lparr>world = (), log = []\<rparr>) = Inr (Returncodes [6]) \<and>
   sub_cmdline \<in> set (spawned (log (snd
      (tardir_go test_os config [\<lparr>path = ''/tmp/foo_xyz/sub''\<rparr>] fake_askyesno False
          \<lparr>world = (), log = []\<rparr>)))) \<and>
   fst (tardir_go test_os config [\<lparr>path = ''/tmp/foo_xyz/sub''\<rparr>] fake_askyesno True
          \<lparr>world = (), log = []\<rparr>) = Inr (Cmdline sub_cmdline) \<and>
   (\<exists>item \<in> set [\<lparr>path = ''/tmp/foo_xyz/sub''\<rparr>].
      make_cmdline config (stripped_path item) = Inr sub_cmdline)"
proof -
  let ?sel = "[\<lparr>path = ''/tmp/foo_xyz/sub''\<rparr>]"
  let ?run = "tardir_go test_os config ?sel fake_askyesno False \<lparr>world = (), log = []\<rparr>"
  let ?test = "tardir_go test_os config ?sel fake_askyesno True \<lparr>world = (), log = []\<rparr>"
  have h1: "?run = (Inr (Returncodes [6]), snd ?run)"
    by (simp add: eval_defs)
  have hc: "sub_cmdline \<in> set (spawned (log (snd ?run)))"
    by (simp add: eval_defs sub_cmdline_def)
  have h2: "?test = (Inr (Cmdline sub_cmdline), snd ?test)"
    by (simp add: eval_defs sub_cmdline_def)
  have d: "get_dest_path ''/tmp/foo_xyz/sub'' = Inr ''/tmp/foo_dcdm/sub''"
    by (simp add: eval_defs)
  note t = tardir_go_fixed_template [where p = "''/tmp/foo_xyz/sub''" and sys = test_os
      and sel = ?sel and prompt = fake_askyesno and w = "()" and res = "Returncodes [6]"
      and st' = "snd ?run" and st = "\<lparr>world = (), log = []\<rparr>" and c = sub_cmdline
      and st'' = "snd ?test"]
  from t d have a: "make_cmdline config ''/tmp/foo_xyz/sub'' = Inr sub_cmdline"
    by (simp add: shell_text_def sub_cmdline_def basename_def dirname_def rfind_def rstrip_def)
  from t h1 hc have b: "\<exists>item \<in> set ?sel. make_cmdline config (stripped_path item) = Inr sub_cmdline"
    by blast
  have f1: "fst ?run = Inr (Returncodes [6])"
    using arg_cong [OF h1, of fst] by (simp only: fst_conv)
  have f2: "fst ?test = Inr (Cmdline sub_cmdline)"
    using arg_cong [OF h2, of fst] by (simp only: fst_conv)
  from a f1 hc f2 b show ?thesis by (intro conjI)
qed

text \<open>
  Claim C7. The command line that test mode returns for a selected item depends on
  the configuration and the item's path only: two calls with the same configuration
  and item, in any two environments (file systems, prompts, worlds and logs), that
  both return a command line return the same one, which is \<open>make_cmdline\<close> of the
  stripped path, a function of the configuration and the path; and \<open>get_dest_path\<close> is
  a function of the path that always returns.
\<close>

theorem cmdline_independent_of_environment:
  assumes "fst (tardir_go sys1 cfg [item] prompt1 True st1) = Inr (Cmdline c1)"
    and "fst (tardir_go sys2 cfg [item] prompt2 True st2) = Inr (Cmdline c2)"
  shows "c1 = c2 \<and> make_cmdline cfg (rstrip (path item) ''/'') = Inr c1 \<and>
         (\<exists>d. get_dest_path (rstrip (path item) ''/'') = Inr d)"
proof -
  from assms(1) obtain s1 where "tardir_go sys1 cfg [item] prompt1 True st1 = (Inr (Cmdline c1), s1)"
    by (cases "tardir_go sys1 cfg [item] prompt1 True st1") simp
  from tardir_go_test_cmdline [OF this]
  have 1: "make_cmdline cfg (stripped_path item) = Inr c1" by simp
  from assms(2) obtain s2 where "tardir_go sys2 cfg [item] prompt2 True st2 = (Inr (Cmdline c2), s2)"
    by (cases "tardir_go sys2 cfg [item] prompt2 True st2") simp
  from tardir_go_test_cmdline [OF this]
  have 2: "make_cmdline cfg (stripped_path item) = Inr c2" by simp
  from 1 2 have "c1 = c2" by simp
  with 1 get_dest_path_total [of "rstrip (path item) ''/''"] show ?thesis
    by (simp add: stripped_path_def)
qed

text \<open>
  The theorem at \<^verbatim>\<open>/tmp/foo/\<close> in two environments: without and with an existing
  archive, and with different logs.
\<close>

theorem cmdline_independent_of_environment_witness:
  "fst (tardir_go test_os config [\<lparr>path = ''/tmp/foo/''\<rparr>] fake_askyesno True
          \<lparr>world = (), log = []\<rparr>) = Inr (Cmdline foo_cmdline) \<and>
   fst (tardir_go test_os_archived config [\<lparr>path = ''/tmp/foo/''\<rparr>] fake_askyesno True
          \<lparr>world = (), log = [IsDir ''/tmp'' True]\<rparr>) = Inr (Cmdline foo_cmdline) \<and>
   make_cmdline config (rstrip ''/tmp/foo/'' ''/'') = Inr foo_cmdline"
proof -
  have h1: "fst (tardir_go test_os config [\<lparr>path = ''/tmp/foo/''\<rparr>] fake_askyesno True
          \<lparr>world = (), log = []\<rparr>) = Inr (Cmdline foo_cmdline)"
    by (simp add: eval_defs foo_cmdline_def)
  have h2: "fst (tardir_go test_os_archived config [\<lparr>path = ''/tmp/foo/''\<rparr>] fake_askyesno True
          \<lparr>world = (), log = [IsDir ''/tmp'' True]\<rparr>) = Inr (Cmdline foo_cmdline)"
    by (simp add: eval_defs foo_cmdline_def)
  from cmdline_independent_of_environment [OF h1 h2]
  have "make_cmdline config (rstrip (path \<lparr>path = ''/tmp/foo/''\<rparr>) ''/'') = Inr foo_cmdline"
    by blast
  then have "make_cmdline config (rstrip ''/tmp/foo/'' ''/'') = Inr foo_cmdline" by simp
  with h1 h2 show ?thesis by (intro conjI)
qed

text \<open>
  Claim C10. \<^verbatim>\<open>tardir_go\<close> returns the same result (in test mode the command line)
  for a selection and for the same selection with any number of trailing slashes added
  to each path, provided the file system says the same of a path with and without the
  added slashes when asked whether it is a directory: the slashes are stripped before
  the archive path, the destination path, the base name and the parent directory are
  computed.
\<close>

theorem tardir_go_trailing_slashes:
  assumes "\<forall>item \<in> set sel. \<forall>w.
      isdir sys w (path item @ replicate (n item) CHR ''/'') = isdir sys w (path item)"
  shows "fst (tardir_go sys cfg
               (map (\<lambda>item. \<lparr>path = path item @ replicate (n item) CHR ''/''\<rparr>) sel)
               prompt test_mode st) =
         fst (tardir_go sys cfg sel prompt test_mode st)"
proof -
  let ?f = "\<lambda>item. \<lparr>path = path item @ replicate (n item) CHR ''/''\<rparr>"
  from assms
  have rel: "list_all2 (\<lambda>a b. stripped_path a = stripped_path b \<and>
             (\<forall>w. isdir sys w (path a) = isdir sys w (path b))) (map ?f sel) sel"
    by (induction sel) (simp_all add: stripped_path_def rstrip_slashes)
  have "fst (tardir_loop sys cfg prompt test_mode (map ?f sel) [] s) =
        fst (tardir_loop sys cfg prompt test_mode sel [] s)" for s
    by (rule tardir_loop_cong [OF rel]) simp
  then show ?thesis
    by (simp add: tardir_go_unfold confirm_msg_def confirm_title_def split: prod.splits)
qed

text \<open>
  The theorem at \<^verbatim>\<open>/tmp/foo//\<close>; the second case of the test has one slash.
\<close>

theorem tardir_go_trailing_slashes_witness:
  "(\<forall>w. isdir test_os w ''/tmp/foo//'' = isdir test_os w ''/tmp/foo'') \<and>
   fst (tardir_go test_os config [\<lparr>path = ''/tmp/foo//''\<rparr>] fake_askyesno True
          \<lparr>world = (), log = []\<rparr>) =
   fst (tardir_go test_os config [\<lparr>path = ''/tmp/foo''\<rparr>] fake_askyesno True
          \<lparr>world = (), log = []\<rparr>)"
proof -
  have same: "\<forall>w. isdir test_os w ''/tmp/foo//'' = isdir test_os w ''/tmp/foo''"
    by (simp add: test_os_def test_dirs_def rstrip_def)
  have slashes: "''/tmp/foo'' @ replicate 2 CHR ''/'' = ''/tmp/foo//''"
    by (simp add: numeral_2_eq_2)
  from same slashes
  have h: "\<forall>item \<in> set [\<lparr>path = ''/tmp/foo''\<rparr>]. \<forall>w.
      isdir test_os w (path item @ replicate 2 CHR ''/'') = isdir test_os w (path item)"
    by simp
  from tardir_go_trailing_slashes [where n = "\<lambda>item. 2", OF h, of config fake_askyesno True
      "\<lparr>world = (), log = []\<rparr>"] slashes
  have "fst (tardir_go test_os config [\<lparr>path = ''/tmp/foo//''\<rparr>] fake_askyesno True
          \<lparr>world = (), log = []\<rparr>) =
        fst (tardir_go test_os config [\<lparr>path = ''/tmp/foo''\<rparr>] fake_askyesno True
          \<lparr>world = (), log = []\<rparr>)"
    by simp
  with same show ?thesis by (rule conjI)
qed

subsection \<open>The sequence of actions\<close>

text \<open>
  Claim C4. When the confirmation dialog at the start is answered with cancel,
  \<^verbatim>\<open>tardir_go\<close> returns without a value, the dialog is the only event, so no process is
  started, and this holds for every configuration, also one with which formatting a
  command line would raise: no command line is formatted.
\<close>

theorem tardir_go_cancelled:
  assumes "\<not> fst (prompt (confirm_msg sel) (confirm_title sel) w)"
  shows "tardir_go sys cfg sel prompt test_mode \<lparr>world = w, log = []\<rparr> =
           (Inr NoResult,
            \<lparr>world = snd (prompt (confirm_msg sel) (confirm_title sel) w),
             log = [Asked (confirm_msg sel) (confirm_title sel) False]\<rparr>)"
  using assms
  by (cases "prompt (confirm_msg sel) (confirm_title sel) w") (simp add: tardir_go_unfold)

text \<open>
  The theorem with a user who cancels and an empty configuration, with which
  formatting would raise \<^verbatim>\<open>KeyError\<close>.
\<close>

theorem tardir_go_cancelled_witness:
  "\<not> fst (cancel (confirm_msg [\<lparr>path = ''/tmp/foo''\<rparr>])
            (confirm_title [\<lparr>path = ''/tmp/foo''\<rparr>]) ()) \<and>
   tardir_go test_os Map.empty [\<lparr>path = ''/tmp/foo''\<rparr>] cancel False \<lparr>world = (), log = []\<rparr> =
     (Inr NoResult,
      \<lparr>world = (),
       log = [Asked ''1 folder selected for TAR; OK?'' ''tarring 1 folder'' False]\<rparr>)"
proof -
  have h: "\<not> fst (cancel (confirm_msg [\<lparr>path = ''/tmp/foo''\<rparr>])
            (confirm_title [\<lparr>path = ''/tmp/foo''\<rparr>]) ())"
    by (simp add: cancel_def)
  from tardir_go_cancelled [where prompt = cancel and sys = test_os and cfg = Map.empty
      and test_mode = False, OF h] h show ?thesis
    by (simp add: confirm_msg_def confirm_title_def str_nat.simps digit_def cancel_def)
qed

text \<open>
  Claim C3, as amended. In a run that submits jobs and returns, the confirmation
  dialog is shown once and accepted, and then each selected item, in order, leaves one
  of four sequences of events: it is not a directory and nothing more is done; its
  archive path is a file and the overwrite dialog is declined; or (after an accepted
  overwrite dialog, shown only when the archive path is a file) the command line for
  its stripped path is formatted and executed once. The return codes are those of the
  executed commands, in order.
\<close>

theorem tardir_go_per_item_sequence:
  assumes "tardir_go sys cfg sel prompt False \<lparr>world = w, log = []\<rparr> =
             (Inr (Returncodes rcs), st')"
  shows "\<exists>segs. list_all2 (item_trace cfg) sel segs \<and>
           log st' = Asked (confirm_msg sel) (confirm_title sel) True # concat segs \<and>
           rcs = returncodes_of (concat segs)"
  using tardir_go_run_trace [OF assms] .

text \<open>
  The theorem at a selection of a path that is not a directory and \<^verbatim>\<open>/tmp/foo\<close>.
\<close>

theorem tardir_go_per_item_sequence_witness:
  "fst (tardir_go test_os config [\<lparr>path = ''/tmp/nothing''\<rparr>, \<lparr>path = ''/tmp/foo''\<rparr>] fake_askyesno False \<lparr>world = (), log = []\<rparr>) = Inr (Returncodes [6]) \<and>
   (\<exists>segs. list_all2 (item_trace config) [\<lparr>path = ''/tmp/nothing''\<rparr>, \<lparr>path = ''/tmp/foo''\<rparr>] segs \<and>
      log (snd (tardir_go test_os config [\<lparr>path = ''/tmp/nothing''\<rparr>, \<lparr>path = ''/tmp/foo''\<rparr>] fake_askyesno False \<lparr>world = (), log = []\<rparr>)) =
        Asked (confirm_msg [\<lparr>path = ''/tmp/nothing''\<rparr>, \<lparr>path = ''/tmp/foo''\<rparr>]) (confirm_title [\<lparr>path = ''/tmp/nothing''\<rparr>, \<lparr>path = ''/tmp/foo''\<rparr>]) True # concat segs \<and>
      [6] = returncodes_of (concat segs))"
proof -
  have h: "tardir_go test_os config [\<lparr>path = ''/tmp/nothing''\<rparr>, \<lparr>path = ''/tmp/foo''\<rparr>] fake_askyesno False \<lparr>world = (), log = []\<rparr> =
      (Inr (Returncodes [6]), snd (tardir_go test_os config [\<lparr>path = ''/tmp/nothing''\<rparr>, \<lparr>path = ''/tmp/foo''\<rparr>] fake_askyesno False \<lparr>world = (), log = []\<rparr>))"
    by (simp add: eval_defs)
  have "fst (tardir_go test_os config [\<lparr>path = ''/tmp/nothing''\<rparr>, \<lparr>path = ''/tmp/foo''\<rparr>] fake_askyesno False \<lparr>world = (), log = []\<rparr>) = Inr (Returncodes [6])"
    using arg_cong [OF h, of fst] by (simp only: fst_conv)
  then show ?thesis using tardir_go_per_item_sequence [OF h] by (rule conjI)
qed

text \<open>
  Claim C3 as it was stated fails: a selected item that is not a directory is not
  processed. After the accepted confirmation the only event is the directory test,
  no command is executed and no return code is returned.
\<close>

theorem tardir_go_skips_non_directory_counterexample:
  "tardir_go test_os config [\<lparr>path = ''/tmp/nothing''\<rparr>] fake_askyesno False \<lparr>world = (), log = []\<rparr> =
     (Inr (Returncodes []),
      \<lparr>world = (),
       log = [Asked ''1 folder selected for TAR; OK?'' ''tarring 1 folder'' True,
              IsDir ''/tmp/nothing'' False]\<rparr>)"
  by (simp add: eval_defs)

text \<open>
  One job for each processed item: in a run that submits jobs and returns, each
  selected item that is processed has exactly one submitted job, with the command line
  of that item, and an item that is not processed has none; the returned list is the
  list of the return codes of the submitted jobs, in order, so it has one entry for
  each job.
\<close>

lemma one_job_per_processed_item:
  assumes "tardir_go sys cfg sel prompt False \<lparr>world = w, log = []\<rparr> =
             (Inr (Returncodes rcs), st')"
  shows "\<exists>segs. log st' = Asked (confirm_msg sel) (confirm_title sel) True # concat segs \<and>
           list_all2 (\<lambda>item seg. item_trace cfg item seg \<and>
              map Inr (spawned seg) =
                (if processed item seg then [make_cmdline cfg (stripped_path item)] else []))
             sel segs \<and>
           rcs = returncodes_of (log st') \<and> length rcs = length (spawned (log st'))"
proof -
  from tardir_go_run_trace [OF assms] obtain segs
    where t: "list_all2 (item_trace cfg) sel segs"
      and l: "log st' = Asked (confirm_msg sel) (confirm_title sel) True # concat segs"
      and r: "rcs = returncodes_of (concat segs)" by blast
  from t have "list_all2 (\<lambda>item seg. item_trace cfg item seg \<and>
              map Inr (spawned seg) =
                (if processed item seg then [make_cmdline cfg (stripped_path item)] else []))
             sel segs"
    by (rule list_all2_mono) (simp add: item_trace_spawned(1))
  moreover from l r have "rcs = returncodes_of (log st')" by simp
  moreover from l r traces_counts [OF t] have "length rcs = length (spawned (log st'))" by simp
  ultimately show ?thesis using l by blast
qed

text \<open>
  Claim C5. One job is submitted for each processed directory and one return code
  returned for each job (the lemma above), but the jobs do not always produce a
  separate archive file for each directory, as the claim and the header comment of the
  source (\<^verbatim>\<open>makes separate files for each\<close>) say: with the two directories
  \<^verbatim>\<open>/a_xyz/b\<close> and \<^verbatim>\<open>/a_dcdm/b\<close> selected, both have the destination path
  \<^verbatim>\<open>/a_dcdm/b\<close>, two jobs are submitted and both write the archive
  \<^verbatim>\<open>/a_dcdm/b.tar\<close> and its listing.
\<close>

theorem tardir_go_shared_archive:
  "tardir_go all_dirs_os config [\<lparr>path = ''/a_xyz/b''\<rparr>, \<lparr>path = ''/a_dcdm/b''\<rparr>]
     fake_askyesno False \<lparr>world = (), log = []\<rparr> =
     (Inr (Returncodes [0, 0]),
      \<lparr>world = (),
       log = [Asked ''2 folders selected for TAR; OK?'' ''tarring 2 folders'' True,
              IsDir ''/a_xyz/b'' True, IsFile ''/a_xyz/b.tar'' False,
              Spawned
                [''/opt/Autodesk/backburner/cmdjob'', ''-manager:manager'', ''-group:TARNODES'',
                 ''-priority:30'', ''-jobName'', ''b DCDM'', ''-userRights'', ''-description'',
                 ''TAR + List file'', ''sh'', ''-c'',
                 ''/usr/bin/tar -cf /a_dcdm/b.tar -C /a_xyz b ;  tar -tvf /a_dcdm/b.tar | sort > /a_dcdm/b.tar.list'']
                (Inr 0),
              IsDir ''/a_dcdm/b'' True, IsFile ''/a_dcdm/b.tar'' False,
              Spawned
                [''/opt/Autodesk/backburner/cmdjob'', ''-manager:manager'', ''-group:TARNODES'',
                 ''-priority:30'', ''-jobName'', ''b DCDM'', ''-userRights'', ''-description'',
                 ''TAR + List file'', ''sh'', ''-c'',
                 ''/usr/bin/tar -cf /a_dcdm/b.tar -C /a_dcdm b ;  tar -tvf /a_dcdm/b.tar | sort > /a_dcdm/b.tar.list'']
                (Inr 0)]\<rparr>) \<and>
   get_dest_path ''/a_xyz/b'' = Inr ''/a_dcdm/b'' \<and>
   get_dest_path ''/a_dcdm/b'' = Inr ''/a_dcdm/b''"
  by (simp add: eval_defs all_dirs_os_def)

text \<open>
  Claim C8. For every selected item of a run that submits jobs and returns, the
  overwrite dialog is shown exactly when the file test on the stripped source path
  with \<^verbatim>\<open>.tar\<close> appended said yes, while a submitted command writes to the destination
  path with \<^verbatim>\<open>.tar\<close> appended; when \<^verbatim>\<open>_xyz/\<close> occurs in the stripped path, the two
  differ.
\<close>

theorem overwrite_check_uses_source_path:
  assumes "tardir_go sys cfg sel prompt False \<lparr>world = w, log = []\<rparr> =
             (Inr (Returncodes rcs), st')"
  shows "\<exists>segs. log st' = Asked (confirm_msg sel) (confirm_title sel) True # concat segs \<and>
           list_all2 (\<lambda>item seg. item_trace cfg item seg \<and>
              ((overwrite_asked item True \<in> set seg \<or> overwrite_asked item False \<in> set seg) \<longleftrightarrow>
                 IsFile (stripped_path item @ ''.tar'') True \<in> set seg) \<and>
              (\<forall>c \<in> set (spawned seg).
                 \<exists>d. get_dest_path (stripped_path item) = Inr d \<and>
                   drop 9 c = [''sh'', ''-c'',
                     shell_text d (dirname (stripped_path item))
                       (basename (stripped_path item))] \<and>
                   (sublist ''_xyz/'' (stripped_path item) \<longrightarrow>
                      d @ ''.tar'' \<noteq> stripped_path item @ ''.tar'')))
             sel segs"
proof -
  from tardir_go_run_trace [OF assms] obtain segs
    where t: "list_all2 (item_trace cfg) sel segs"
      and l: "log st' = Asked (confirm_msg sel) (confirm_title sel) True # concat segs"
    by blast
  from t have "list_all2 (\<lambda>item seg. item_trace cfg item seg \<and>
              ((overwrite_asked item True \<in> set seg \<or> overwrite_asked item False \<in> set seg) \<longleftrightarrow>
                 IsFile (stripped_path item @ ''.tar'') True \<in> set seg) \<and>
              (\<forall>c \<in> set (spawned seg).
                 \<exists>d. get_dest_path (stripped_path item) = Inr d \<and>
                   drop 9 c = [''sh'', ''-c'',
                     shell_text d (dirname (stripped_path item))
                       (basename (stripped_path item))] \<and>
                   (sublist ''_xyz/'' (stripped_path item) \<longrightarrow>
                      d @ ''.tar'' \<noteq> stripped_path item @ ''.tar'')))
             sel segs"
  proof (rule list_all2_mono)
    fix item seg
    assume it: "item_trace cfg item seg"
    show "item_trace cfg item seg \<and>
              ((overwrite_asked item True \<in> set seg \<or> overwrite_asked item False \<in> set seg) \<longleftrightarrow>
                 IsFile (stripped_path item @ ''.tar'') True \<in> set seg) \<and>
              (\<forall>c \<in> set (spawned seg).
                 \<exists>d. get_dest_path (stripped_path item) = Inr d \<and>
                   drop 9 c = [''sh'', ''-c'',
                     shell_text d (dirname (stripped_path item))
                       (basename (stripped_path item))] \<and>
                   (sublist ''_xyz/'' (stripped_path item) \<longrightarrow>
                      d @ ''.tar'' \<noteq> stripped_path item @ ''.tar''))"
      using it item_trace_overwrite [OF it] item_trace_written [OF it]
      by (intro conjI ballI) assumption+
  qed
  with l show ?thesis by blast
qed

text \<open>
  The theorem at a selection of \<^verbatim>\<open>/tmp/foo\<close>, whose archive exists, and
  \<^verbatim>\<open>/tmp/foo_xyz/sub\<close>.
\<close>

theorem overwrite_check_uses_source_path_witness:
  "fst (tardir_go test_os_archived config [\<lparr>path = ''/tmp/foo''\<rparr>, \<lparr>path = ''/tmp/foo_xyz/sub''\<rparr>] fake_askyesno False \<lparr>world = (), log = []\<rparr>) = Inr (Returncodes [6, 6]) \<and>
   (\<exists>segs. log (snd (tardir_go test_os_archived config [\<lparr>path = ''/tmp/foo''\<rparr>, \<lparr>path = ''/tmp/foo_xyz/sub''\<rparr>] fake_askyesno False \<lparr>world = (), log = []\<rparr>)) =
        Asked (confirm_msg [\<lparr>path = ''/tmp/foo''\<rparr>, \<lparr>path = ''/tmp/foo_xyz/sub''\<rparr>]) (confirm_title [\<lparr>path = ''/tmp/foo''\<rparr>, \<lparr>path = ''/tmp/foo_xyz/sub''\<rparr>]) True # concat segs \<and>
      list_all2 (\<lambda>item seg. item_trace config item seg \<and>
          ((overwrite_asked item True \<in> set seg \<or> overwrite_asked item False \<in> set seg) \<longleftrightarrow>
             IsFile (stripped_path item @ ''.tar'') True \<in> set seg) \<and>
          (\<forall>c \<in> set (spawned seg).
             \<exists>d. get_dest_path (stripped_path item) = Inr d \<and>
               drop 9 c = [''sh'', ''-c'',
                 shell_text d (dirname (stripped_path item))
                   (basename (stripped_path item))] \<and>
               (sublist ''_xyz/'' (stripped_path item) \<longrightarrow>
                  d @ ''.tar'' \<noteq> stripped_path item @ ''.tar'')))
        [\<lparr>path = ''/tmp/foo''\<rparr>, \<lparr>path = ''/tmp/foo_xyz/sub''\<rparr>] segs)"
proof -
  have h: "tardir_go test_os_archived config [\<lparr>path = ''/tmp/foo''\<rparr>, \<lparr>path = ''/tmp/foo_xyz/sub''\<rparr>] fake_askyesno False \<lparr>world = (), log = []\<rparr> =
      (Inr (Returncodes [6, 6]), snd (tardir_go test_os_archived config [\<lparr>path = ''/tmp/foo''\<rparr>, \<lparr>path = ''/tmp/foo_xyz/sub''\<rparr>] fake_askyesno False \<lparr>world = (), log = []\<rparr>))"
    by (simp add: eval_defs)
  have "fst (tardir_go test_os_archived config [\<lparr>path = ''/tmp/foo''\<rparr>, \<lparr>path = ''/tmp/foo_xyz/sub''\<rparr>] fake_askyesno False \<lparr>world = (), log = []\<rparr>) = Inr (Returncodes [6, 6])"
    using arg_cong [OF h, of fst] by (simp only: fst_conv)
  then show ?thesis using overwrite_check_uses_source_path [OF h] by (rule conjI)
qed

subsection \<open>The menu predicate\<close>

lemma menu_enabled_loop_iff:
  "menu_enabled_loop sys w sel b \<longleftrightarrow> b \<or> (\<exists>item \<in> set sel. isdir sys w (path item))"
  by (induction sel arbitrary: b) auto

text \<open>
  Claim C9. The menu action is enabled exactly when some selected item's path is a
  directory; in particular a selection that contains one directory among other items
  enables it.
\<close>

theorem menu_enabled_iff_some_directory:
  "(menu_enabled sys w sel \<longleftrightarrow> (\<exists>item \<in> set sel. isdir sys w (path item))) \<and>
   (isdir sys w (path d) \<longrightarrow> menu_enabled sys w (xs @ d # ys))"
  by (auto simp: menu_enabled_def menu_enabled_loop_iff)

text \<open>
  The theorem at a selection with one directory between two other paths, and at a
  selection without a directory.
\<close>

theorem menu_enabled_iff_some_directory_witness:
  "isdir test_os () ''/tmp/foo'' \<and>
   menu_enabled test_os ()
     [\<lparr>path = ''/tmp/nothing''\<rparr>, \<lparr>path = ''/tmp/foo''\<rparr>, \<lparr>path = ''/tmp/other''\<rparr>] \<and>
   \<not> menu_enabled test_os () [\<lparr>path = ''/tmp/nothing''\<rparr>]"
proof -
  have d: "isdir test_os () (path \<lparr>path = ''/tmp/foo''\<rparr>)"
    by (simp add: test_os_def test_dirs_def rstrip_def)
  from menu_enabled_iff_some_directory
    [of test_os "()" _ "\<lparr>path = ''/tmp/foo''\<rparr>" "[\<lparr>path = ''/tmp/nothing''\<rparr>]"
       "[\<lparr>path = ''/tmp/other''\<rparr>]"] d
  have a: "menu_enabled test_os ()
     [\<lparr>path = ''/tmp/nothing''\<rparr>, \<lparr>path = ''/tmp/foo''\<rparr>, \<lparr>path = ''/tmp/other''\<rparr>]"
    by simp
  have "\<not> (\<exists>item \<in> set [\<lparr>path = ''/tmp/nothing''\<rparr>]. isdir test_os () (path item))"
    by (simp add: test_os_def test_dirs_def rstrip_def)
  with menu_enabled_iff_some_directory [of test_os "()" "[\<lparr>path = ''/tmp/nothing''\<rparr>]"]
  have b: "\<not> menu_enabled test_os () [\<lparr>path = ''/tmp/nothing''\<rparr>]" by blast
  from d a b show ?thesis by simp
qed

end
